(* ===== verification/Prelude.thy ===== *)
theory Prelude
  imports Main "HOL-Library.Word" "HOL-Library.Finite_Map" "HOL-Library.Multiset"
    "HOL-Library.Code_Target_Numeral" "HOL-Library.List_Lexorder" "HOL-Library.Char_ord"
begin

text \<open>
  Shared vocabulary of the development: Go's run-time panics as values of a sum type, the
  order in which a \<open>range\<close> loop visits a Go map, and the facts about finite maps that the
  component theories use. The collections \<open>go_bind\<close> (inversion of a sequenced computation)
  and \<open>fm_card\<close> (sizes of finite maps) are handed to \<open>simp\<close> and \<open>auto\<close> by the components.
\<close>

section \<open>Panics as values\<close>

text \<open>
  A Go function either returns or panics. A model of a function that can panic has a result
  of type \<open>'a go\<close>: \<open>Inl\<close> carries the run-time error, \<open>Inr\<close> the value returned.
\<close>

datatype go_panic = NilDeref | SliceBounds | IndexRange | NilMapWrite

type_synonym 'a go = "go_panic + 'a"

named_theorems go_bind "inversion rules for sequenced computations that may panic"
named_theorems fm_card "sizes of finite maps"

fun bind_go :: "'a go \<Rightarrow> ('a \<Rightarrow> 'b go) \<Rightarrow> 'b go" where
  "bind_go (Inl p) f = Inl p"
| "bind_go (Inr x) f = f x"

lemma bind_go_Inr [go_bind]: "bind_go m f = Inr y \<longleftrightarrow> (\<exists>x. m = Inr x \<and> f x = Inr y)"
  by (cases m) auto

lemma bind_go_Inl [go_bind]:
  "bind_go m f = Inl p \<longleftrightarrow> m = Inl p \<or> (\<exists>x. m = Inr x \<and> f x = Inl p)"
  by (cases m) auto

lemma bind_go_sym [go_bind]:
  "Inr y = bind_go m f \<longleftrightarrow> (\<exists>x. m = Inr x \<and> Inr y = f x)"
  "Inl p = bind_go m f \<longleftrightarrow> m = Inl p \<or> (\<exists>x. m = Inr x \<and> Inl p = f x)"
  by (cases m; auto)+

lemma bind_go_cong [fundef_cong]:
  "m = m' \<Longrightarrow> (\<And>x. m' = Inr x \<Longrightarrow> f x = f' x) \<Longrightarrow> bind_go m f = bind_go m' f'"
  by (cases m') auto

lemma bind_go_assoc: "bind_go (bind_go m f) g = bind_go m (\<lambda>x. bind_go (f x) g)"
  by (cases m) auto

text \<open>A computation that returns and whose result satisfies \<open>P\<close>: total correctness.\<close>

definition returns :: "('a \<Rightarrow> bool) \<Rightarrow> 'a go \<Rightarrow> bool" where
  "returns P m \<longleftrightarrow> (case m of Inl _ \<Rightarrow> False | Inr x \<Rightarrow> P x)"

lemma returns_simps [simp]: "\<not> returns P (Inl p)" "returns P (Inr x) \<longleftrightarrow> P x"
  by (simp_all add: returns_def)

lemma returns_bind: "returns (\<lambda>x. returns P (f x)) m \<Longrightarrow> returns P (bind_go m f)"
  by (cases m) auto

lemma returns_bindI:
  "returns P m \<Longrightarrow> (\<And>x. P x \<Longrightarrow> returns Q (f x)) \<Longrightarrow> returns Q (bind_go m f)"
  by (cases m) auto

lemma returns_mono: "returns P m \<Longrightarrow> (\<And>x. P x \<Longrightarrow> Q x) \<Longrightarrow> returns Q m"
  by (cases m) auto

lemma returnsD: "returns P m \<Longrightarrow> \<exists>x. m = Inr x \<and> P x"
  by (cases m) auto

lemma returns_iff: "returns P m \<longleftrightarrow> (\<exists>x. m = Inr x \<and> P x)"
  by (cases m) auto

section \<open>The visiting order of a map\<close>

text \<open>
  A \<open>range\<close> loop over a Go map visits every key once in an order the language leaves open.
  The order is a parameter of the model: a function from the key set to a list, constrained
  only by \<open>is_order\<close>.
\<close>

type_synonym 'k order_fun = "'k fset \<Rightarrow> 'k list"

definition is_order :: "'k order_fun \<Rightarrow> bool" where
  "is_order f \<longleftrightarrow> (\<forall>S. distinct (f S) \<and> set (f S) = fset S)"

lemma is_orderD: "is_order f \<Longrightarrow> distinct (f S)" "is_order f \<Longrightarrow> set (f S) = fset S"
  by (simp_all add: is_order_def)

lemma is_order_length: "is_order f \<Longrightarrow> length (f S) = fcard S"
  by (metis distinct_card fcard.rep_eq is_orderD)

lemma is_order_Nil: "is_order f \<Longrightarrow> f S = [] \<longleftrightarrow> S = {||}"
  by (metis bot_fset.rep_eq fset_inject is_orderD(2) set_empty)

lemma is_order_sorted [simp]: "is_order sorted_list_of_fset"
  by (simp add: is_order_def sorted_list_of_fset.rep_eq)

section \<open>Finite maps\<close>

definition fmsize :: "('k, 'v) fmap \<Rightarrow> nat" where
  "fmsize m = fcard (fmdom m)"

lemma fmsize_empty [simp, fm_card]: "fmsize fmempty = 0"
  by (simp add: fmsize_def)

lemma fmsize_upd [fm_card]:
  "fmsize (fmupd k v m) = (if k |\<in>| fmdom m then fmsize m else Suc (fmsize m))"
  by (simp add: fmsize_def fcard_finsert_if)

lemma fmsize_drop [fm_card]:
  "fmsize (fmdrop k m) = (if k |\<in>| fmdom m then fmsize m - 1 else fmsize m)"
  by (simp add: fmsize_def fcard_fminus_fsingleton_if)

lemma fmsize_pos: "k |\<in>| fmdom m \<Longrightarrow> 0 < fmsize m"
  by (auto simp: fmsize_def fcard.rep_eq card_gt_0_iff)

lemma fmdom_empty_iff [simp]: "fmdom m = {||} \<longleftrightarrow> m = fmempty"
  by (metis fmrestrict_fset_dom fmrestrict_fset_null fmdom_empty)

lemma fmlookup_in_dom: "fmlookup m k = Some v \<Longrightarrow> k |\<in>| fmdom m"
  by (rule fmdomI)

lemma fmdom_lookup_iff: "k |\<in>| fmdom m \<longleftrightarrow> (\<exists>v. fmlookup m k = Some v)"
  by (auto simp: fmlookup_dom_iff)

end
