(* ===== verification/Go_Strings.thy ===== *)
theory Go_Strings
  imports Prelude "HOL-Library.Sublist"
begin

text \<open>
  The functions of Go's \<open>strings\<close> package that the program calls, on strings as byte lists.
  A Go string is a byte sequence, and HOL's \<open>char\<close> is a byte, so \<open>length\<close> is Go's \<open>len\<close> and
  list positions are byte offsets. \<open>TrimSpace\<close> removes the white space of Unicode, in its UTF-8
  encoding; \<open>ToLower\<close> is exact for ASCII text and leaves the bytes of other letters as they are.
\<close>

section \<open>Prefixes, suffixes, searching\<close>

text \<open>\<open>strings.HasPrefix\<close>, \<open>HasSuffix\<close>, \<open>Contains\<close> are the library's list orders.\<close>

definition has_prefix :: "string \<Rightarrow> string \<Rightarrow> bool" where
  "has_prefix s p = prefix p s"

definition has_suffix :: "string \<Rightarrow> string \<Rightarrow> bool" where
  "has_suffix s p = suffix p s"

fun contains_str :: "string \<Rightarrow> string \<Rightarrow> bool" where
  "contains_str [] t = (t = [])"
| "contains_str (c # s) t = (prefix t (c # s) \<or> contains_str s t)"

lemma contains_str_sublist: "contains_str s t \<longleftrightarrow> sublist t s"
  by (induction s) (auto simp: sublist_Cons_right)

lemma contains_char: "contains_str s [c] \<longleftrightarrow> c \<in> set s"
  by (induction s) (auto simp: prefix_Cons)

lemma has_suffix_iff: "has_suffix s p \<longleftrightarrow> (\<exists>u. s = u @ p)"
  by (auto simp: has_suffix_def suffix_def)

lemma has_prefix_iff: "has_prefix s p \<longleftrightarrow> (\<exists>u. s = p @ u)"
  by (auto simp: has_prefix_def prefix_def)

lemma has_suffix_drop: "has_suffix s p \<longleftrightarrow> length p \<le> length s \<and> drop (length s - length p) s = p"
  by (metis append_take_drop_id diff_diff_cancel has_suffix_iff le_add2 length_append length_drop
      append_eq_conv_conj diff_add_inverse2)

text \<open>\<open>strings.TrimSuffix\<close>: one copy of the suffix, when it is there.\<close>

definition trim_suffix :: "string \<Rightarrow> string \<Rightarrow> string" where
  "trim_suffix s p = (if has_suffix s p then take (length s - length p) s else s)"

lemma trim_suffix_append [simp]: "trim_suffix (s @ p) p = s"
  by (auto simp: trim_suffix_def has_suffix_iff)

section \<open>White space, case\<close>

definition is_space :: "char \<Rightarrow> bool" where
  "is_space c \<longleftrightarrow> c \<in> {CHR '' '', CHR 0x09, CHR 0x0A, CHR 0x0B, CHR 0x0C, CHR 0x0D}"

text \<open>
  The characters for which \<open>unicode.IsSpace\<close> holds, as their UTF-8 bytes: six of ASCII, NEL and the
  no-break space, and those of the general punctuation and other blocks. A rune is decoded at the
  beginning or at the end of a text exactly when the text begins or ends with its bytes.
\<close>

definition space_runes :: "string list" where
  "space_runes =
     [[CHR '' ''], [CHR 0x09], [CHR 0x0A], [CHR 0x0B], [CHR 0x0C], [CHR 0x0D],
      [CHR 0xC2, CHR 0x85], [CHR 0xC2, CHR 0xA0], [CHR 0xE1, CHR 0x9A, CHR 0x80],
      [CHR 0xE2, CHR 0x80, CHR 0x80], [CHR 0xE2, CHR 0x80, CHR 0x81], [CHR 0xE2, CHR 0x80, CHR 0x82],
      [CHR 0xE2, CHR 0x80, CHR 0x83], [CHR 0xE2, CHR 0x80, CHR 0x84], [CHR 0xE2, CHR 0x80, CHR 0x85],
      [CHR 0xE2, CHR 0x80, CHR 0x86], [CHR 0xE2, CHR 0x80, CHR 0x87], [CHR 0xE2, CHR 0x80, CHR 0x88],
      [CHR 0xE2, CHR 0x80, CHR 0x89], [CHR 0xE2, CHR 0x80, CHR 0x8A], [CHR 0xE2, CHR 0x80, CHR 0xA8],
      [CHR 0xE2, CHR 0x80, CHR 0xA9], [CHR 0xE2, CHR 0x80, CHR 0xAF], [CHR 0xE2, CHR 0x81, CHR 0x9F],
      [CHR 0xE3, CHR 0x80, CHR 0x80]]"

text \<open>The text without the runes \<open>rs\<close> at its beginning.\<close>

function trim_runes :: "string list \<Rightarrow> string \<Rightarrow> string" where
  "trim_runes rs s =
     (case List.find (\<lambda>r. r \<noteq> [] \<and> prefix r s) rs of
        None \<Rightarrow> s
      | Some r \<Rightarrow> trim_runes rs (drop (length r) s))"
  by pat_completeness auto
termination
  by (relation "measure (\<lambda>(rs, s). length s)") (auto simp: find_Some_iff prefix_def)

declare trim_runes.simps [simp del]

definition trim_space :: "string \<Rightarrow> string" where
  "trim_space s = rev (trim_runes (map rev space_runes) (rev (trim_runes space_runes s)))"

text \<open>\<open>strings.TrimLeft s cutset\<close> and \<open>strings.Trim s cutset\<close>.\<close>

definition trim_left :: "string \<Rightarrow> string \<Rightarrow> string" where
  "trim_left s cutset = dropWhile (\<lambda>c. c \<in> set cutset) s"

definition trim_cutset :: "string \<Rightarrow> string \<Rightarrow> string" where
  "trim_cutset s cutset = rev (dropWhile (\<lambda>c. c \<in> set cutset) (rev (trim_left s cutset)))"

definition is_upper :: "char \<Rightarrow> bool" where
  "is_upper c \<longleftrightarrow> 65 \<le> (of_char c :: nat) \<and> (of_char c :: nat) \<le> 90"

text \<open>A lower-case letter is the upper-case one with bit 5 set, that is, 32 more.\<close>

fun lower_char :: "char \<Rightarrow> char" where
  "lower_char (Char b0 b1 b2 b3 b4 b5 b6 b7) =
     (if is_upper (Char b0 b1 b2 b3 b4 b5 b6 b7) then Char b0 b1 b2 b3 b4 True b6 b7
      else Char b0 b1 b2 b3 b4 b5 b6 b7)"

lemma of_lower_char: "of_char (lower_char c) = (if is_upper c then of_char c + 32 else of_char c :: nat)"
  by (cases c) (auto simp: is_upper_def of_char_Char split: if_splits)

definition to_lower :: "string \<Rightarrow> string" where
  "to_lower s = map lower_char s"

lemma not_upper_lower_char [simp]: "\<not> is_upper (lower_char c)"
  using of_lower_char [of c] by (auto simp: is_upper_def split: if_splits)

lemma lower_char_not_upper: "\<not> is_upper c \<Longrightarrow> lower_char c = c"
  by (cases c) simp

lemma lower_char_idem [simp]: "lower_char (lower_char c) = lower_char c"
  by (simp add: lower_char_not_upper)

lemma to_lower_idem [simp]: "to_lower (to_lower s) = to_lower s"
  by (simp add: to_lower_def)

lemma to_lower_append: "to_lower (s @ t) = to_lower s @ to_lower t"
  by (simp add: to_lower_def)

lemma length_to_lower [simp]: "length (to_lower s) = length s"
  by (simp add: to_lower_def)

lemma trim_runes_keep: "(\<forall>r \<in> set rs. r = [] \<or> \<not> prefix r s) \<Longrightarrow> trim_runes rs s = s"
  by (subst trim_runes.simps) (auto split: option.splits simp: find_Some_iff)

lemma trim_runes_decomp: "\<exists>us. set us \<subseteq> set rs - {[]} \<and> s = concat us @ trim_runes rs s"
proof (induction rs s rule: trim_runes.induct)
  case (1 rs s)
  show ?case
  proof (cases "List.find (\<lambda>r. r \<noteq> [] \<and> prefix r s) rs")
    case None
    then show ?thesis by (intro exI [of _ "[]"]) (simp add: trim_runes.simps [of rs s])
  next
    case (Some r)
    then have r: "r \<in> set rs" "r \<noteq> []" "prefix r s" by (auto simp: find_Some_iff)
    obtain us where "set us \<subseteq> set rs - {[]}" "drop (length r) s = concat us @ trim_runes rs (drop (length r) s)"
      using 1 [OF Some] by blast
    moreover have "s = r @ drop (length r) s" using r(3) by (auto simp: prefix_def)
    ultimately show ?thesis using r(1,2) Some
      by (intro exI [of _ "r # us"]) (simp add: trim_runes.simps [of rs s])
  qed
qed

lemma trim_runes_same: "trim_runes rs s = s \<Longrightarrow> r \<in> set rs \<Longrightarrow> r \<noteq> [] \<Longrightarrow> \<not> prefix r s"
proof
  assume same: "trim_runes rs s = s" and r: "r \<in> set rs" "r \<noteq> []" "prefix r s"
  then obtain x where x: "List.find (\<lambda>r. r \<noteq> [] \<and> prefix r s) rs = Some x"
    by (cases "List.find (\<lambda>r. r \<noteq> [] \<and> prefix r s) rs") (auto simp: find_None_iff)
  then have "x \<noteq> []" "prefix x s" by (auto simp: find_Some_iff)
  then have "length (drop (length x) s) < length s" by (auto simp: prefix_def)
  moreover have "length (trim_runes rs (drop (length x) s)) \<le> length (drop (length x) s)"
    using trim_runes_decomp [of rs "drop (length x) s"] by (metis le_add2 length_append)
  ultimately show False using same x trim_runes.simps [of rs s] by simp
qed

lemma space_runes_facts: "[] \<notin> set space_runes"
  "r \<in> set space_runes \<Longrightarrow> CHR '' '' \<in> set r \<Longrightarrow> r = [CHR '' '']"
  by (auto simp: space_runes_def)

lemma trim_space_parts:
  "\<exists>us vs. set us \<subseteq> set space_runes \<and> set vs \<subseteq> set space_runes \<and>
     s = concat us @ trim_space s @ concat vs"
proof -
  let ?t = "trim_runes space_runes s"
  obtain us where us: "set us \<subseteq> set space_runes" "s = concat us @ ?t"
    using trim_runes_decomp [of space_runes s] by blast
  obtain ws where ws: "set ws \<subseteq> rev ` set space_runes" "rev ?t = concat ws @ rev (trim_space s)"
    using trim_runes_decomp [of "map rev space_runes" "rev ?t"] by (auto simp: trim_space_def)
  have "?t = trim_space s @ concat (map rev (rev ws))"
    using ws(2) by (metis rev_append rev_concat rev_map rev_rev_ident)
  moreover have "set (map rev (rev ws)) \<subseteq> set space_runes" using ws(1) by auto
  ultimately show ?thesis using us by metis
qed

lemma trim_space_Nil [simp]: "trim_space [] = []"
  using trim_space_parts [of "[]"] by auto

lemma trim_space_decomp: "\<exists>u v. s = u @ trim_space s @ v"
  using trim_space_parts [of s] by blast

text \<open>A text is left alone when it neither begins nor ends with white space, and only then.\<close>

lemma trim_space_same:
  "trim_space s = s \<longleftrightarrow> (\<forall>r \<in> set space_runes. \<not> prefix r s \<and> \<not> suffix r s)"
proof
  assume same: "trim_space s = s"
  have front: "trim_runes space_runes s = s"
  proof -
    obtain u where "s = u @ trim_runes space_runes s" using trim_runes_decomp [of space_runes s] by blast
    moreover obtain v where "rev (trim_runes space_runes s) = v @ rev (trim_space s)"
      using trim_runes_decomp [of "map rev space_runes" "rev (trim_runes space_runes s)"]
      by (auto simp: trim_space_def)
    ultimately show ?thesis using same
      by (metis append_Nil append_self_conv2 length_append length_rev le_add2 le_antisym add_cancel_right_left
          length_0_conv)
  qed
  then have rear: "trim_runes (map rev space_runes) (rev s) = rev s"
    using same by (metis rev_rev_ident trim_space_def)
  show "\<forall>r \<in> set space_runes. \<not> prefix r s \<and> \<not> suffix r s"
  proof
    fix r assume r: "r \<in> set space_runes"
    then have "r \<noteq> []" "rev r \<noteq> []" "rev r \<in> set (map rev space_runes)" using space_runes_facts(1) by auto
    with trim_runes_same [OF front r] trim_runes_same [OF rear, of "rev r"]
    show "\<not> prefix r s \<and> \<not> suffix r s" by (simp add: suffix_to_prefix)
  qed
next
  assume r: "\<forall>r \<in> set space_runes. \<not> prefix r s \<and> \<not> suffix r s"
  then have "trim_runes space_runes s = s" by (intro trim_runes_keep) auto
  moreover have "trim_runes (map rev space_runes) (rev s) = rev s"
    using r by (intro trim_runes_keep) (auto simp: suffix_to_prefix)
  ultimately show "trim_space s = s" by (simp add: trim_space_def)
qed

lemma concat_runes_hd:
  "set us \<subseteq> set space_runes \<Longrightarrow> concat us = c # s \<Longrightarrow> \<exists>r \<in> set space_runes. hd r = c"
proof (induction us)
  case (Cons u us)
  then have "u \<noteq> []" using space_runes_facts(1) by auto
  with Cons.prems show ?case by (cases u) (auto intro: bexI [of _ u])
qed simp

text \<open>A first byte that no white space begins with stays.\<close>

lemma trim_space_hd:
  assumes "s \<noteq> []" "\<forall>r \<in> set space_runes. hd r \<noteq> hd s"
  shows "\<exists>u. trim_space s = hd s # u"
proof -
  obtain us vs where p: "set us \<subseteq> set space_runes" "set vs \<subseteq> set space_runes"
      "s = concat us @ trim_space s @ concat vs" using trim_space_parts [of s] by blast
  have none: "concat ws = []" if "set ws \<subseteq> set space_runes" "concat ws @ t = s" for ws t
  proof (rule ccontr)
    assume "concat ws \<noteq> []"
    then obtain c w where "concat ws = c # w" by (cases "concat ws") auto
    with concat_runes_hd [OF that(1) this] that(2) assms(2) show False by auto
  qed
  have "concat us = []" using none [OF p(1)] p(3) by metis
  with p(3) have s: "s = trim_space s @ concat vs" by simp
  show ?thesis
  proof (cases "trim_space s")
    case Nil
    with s none [OF p(2), of "[]"] assms(1) show ?thesis by simp
  next
    case (Cons c u)
    with s show ?thesis by (metis append_Cons list.sel(1))
  qed
qed

section \<open>Splitting\<close>

text \<open>\<open>strings.Split\<close> and \<open>strings.SplitAfter\<close> at a one-byte separator.\<close>

fun split_on :: "char \<Rightarrow> string \<Rightarrow> string list" where
  "split_on c [] = [[]]"
| "split_on c (x # xs) =
     (if x = c then [] # split_on c xs
      else (case split_on c xs of [] \<Rightarrow> [[x]] | w # ws \<Rightarrow> (x # w) # ws))"

fun split_after :: "char \<Rightarrow> string \<Rightarrow> string list" where
  "split_after c [] = [[]]"
| "split_after c (x # xs) =
     (if x = c then [x] # split_after c xs
      else (case split_after c xs of [] \<Rightarrow> [[x]] | w # ws \<Rightarrow> (x # w) # ws))"

lemma split_on_not_Nil [simp]: "split_on c s \<noteq> []"
  by (induction s) (auto split: list.splits)

lemma split_after_not_Nil [simp]: "split_after c s \<noteq> []"
  by (induction s) (auto split: list.splits)

lemma split_on_sep_free: "w \<in> set (split_on c s) \<Longrightarrow> c \<notin> set w"
  by (induction s arbitrary: w) (auto split: list.splits if_splits)

lemma split_on_no_sep: "c \<notin> set s \<Longrightarrow> split_on c s = [s]"
  by (induction s) auto

lemma split_on_append: "c \<notin> set w \<Longrightarrow> split_on c (w @ c # s) = w # split_on c s"
  by (induction w) auto

text \<open>Joining the pieces with the separator gives the string back.\<close>

fun join_with :: "char \<Rightarrow> string list \<Rightarrow> string" where
  "join_with c [] = []"
| "join_with c [w] = w"
| "join_with c (w # ws) = w @ c # join_with c ws"

lemma join_with_Cons: "ws \<noteq> [] \<Longrightarrow> join_with c (w # ws) = w @ c # join_with c ws"
  by (cases ws) auto

lemma join_with_push: "join_with c ((x # w) # ws) = x # join_with c (w # ws)"
  by (cases ws) auto

lemma join_split: "join_with c (split_on c s) = s"
proof (induction s)
  case (Cons x xs)
  then show ?case
    by (cases "split_on c xs") (auto simp: join_with_Cons join_with_push)
qed simp

lemma split_on_join:
  "ws \<noteq> [] \<Longrightarrow> \<forall>w \<in> set ws. c \<notin> set w \<Longrightarrow> split_on c (join_with c ws) = ws"
proof (induction ws rule: join_with.induct)
  case (2 c w)
  then show ?case by (simp add: split_on_no_sep)
next
  case (3 c w v vs)
  then show ?case by (simp add: split_on_append)
qed simp

lemma concat_split_after: "concat (split_after c s) = s"
proof (induction s)
  case (Cons x xs)
  then show ?case by (cases "split_after c xs") auto
qed simp

text \<open>A line of \<open>SplitAfter\<close> has its separator at its end or not at all.\<close>

definition line_of :: "char \<Rightarrow> string \<Rightarrow> bool" where
  "line_of c w \<longleftrightarrow> c \<notin> set w \<or> (\<exists>v. w = v @ [c] \<and> c \<notin> set v)"

lemma line_of_Cons: "x \<noteq> c \<Longrightarrow> line_of c w \<Longrightarrow> line_of c (x # w)"
  unfolding line_of_def by (auto simp: Cons_eq_append_conv)

lemma split_after_lines: "w \<in> set (split_after c s) \<Longrightarrow> line_of c w"
proof (induction s arbitrary: w)
  case Nil
  then show ?case by (simp add: line_of_def)
next
  case (Cons x xs)
  show ?case
  proof (cases "x = c")
    case True
    with Cons show ?thesis by (auto simp: line_of_def)
  next
    case False
    with Cons show ?thesis by (cases "split_after c xs") (auto intro: line_of_Cons)
  qed
qed

lemma split_after_line_append:
  "c \<notin> set v \<Longrightarrow> split_after c (v @ c # s) = (v @ [c]) # split_after c s"
  by (induction v) auto

lemma split_after_no_sep: "c \<notin> set v \<Longrightarrow> split_after c v = [v]"
  by (induction v) auto

text \<open>
  The shape of what \<open>SplitAfter\<close> returns: every piece but the last ends in the separator, and no
  piece has it elsewhere.
\<close>

fun pieces :: "char \<Rightarrow> string list \<Rightarrow> bool" where
  "pieces c [] \<longleftrightarrow> False"
| "pieces c [w] \<longleftrightarrow> c \<notin> set w"
| "pieces c (w # ws) \<longleftrightarrow> (\<exists>v. w = v @ [c] \<and> c \<notin> set v) \<and> pieces c ws"

lemma pieces_Cons: "ws \<noteq> [] \<Longrightarrow> pieces c (w # ws) \<longleftrightarrow> (\<exists>v. w = v @ [c] \<and> c \<notin> set v) \<and> pieces c ws"
  by (cases ws) auto

lemma pieces_push: "x \<noteq> c \<Longrightarrow> pieces c (w # ws) \<Longrightarrow> pieces c ((x # w) # ws)"
  by (cases ws) (auto simp: Cons_eq_append_conv)

lemma split_after_pieces: "pieces c (split_after c s)"
proof (induction s)
  case (Cons x xs)
  then show ?case
    by (cases "split_after c xs") (auto simp: pieces_Cons intro: pieces_push)
qed simp

lemma split_after_concat: "pieces c ws \<Longrightarrow> split_after c (concat ws) = ws"
proof (induction c ws rule: pieces.induct)
  case (3 c w v vs)
  then show ?case by (auto simp: split_after_line_append)
qed (simp_all add: split_after_no_sep)

lemma pieces_map:
  "pieces c ws \<Longrightarrow> \<forall>w \<in> set ws. \<exists>u. c \<notin> set u \<and> f w = u @ w \<Longrightarrow> pieces c (map f ws)"
proof (induction c ws rule: pieces.induct)
  case (3 c w v vs)
  then obtain u where "c \<notin> set u" "f w = u @ w" by auto
  moreover obtain y where "w = y @ [c]" "c \<notin> set y" using 3(2) by auto
  ultimately have "f w = (u @ y) @ [c] \<and> c \<notin> set (u @ y)" by simp
  with 3 show ?case by (auto simp del: append_assoc)
qed auto

section \<open>Replacing\<close>

text \<open>
  \<open>strings.Replace s old new (-1)\<close> for a non-empty \<open>old\<close>: non-overlapping occurrences from
  left to right. (The program never passes an empty \<open>old\<close>; the equation then returns \<open>s\<close>.)
\<close>

function replace_all :: "string \<Rightarrow> string \<Rightarrow> string \<Rightarrow> string" where
  "replace_all old new s =
     (if old = [] then s else
      (case s of [] \<Rightarrow> []
       | c # cs \<Rightarrow> if prefix old s then new @ replace_all old new (drop (length old) s)
                   else c # replace_all old new cs))"
  by pat_completeness auto
termination
  by (relation "measure (\<lambda>(old, new, s). length s)") auto

declare replace_all.simps [simp del]

lemma replace_all_Nil [simp]: "replace_all old new [] = []"
  by (subst replace_all.simps) simp

lemma replace_all_Cons:
  "old \<noteq> [] \<Longrightarrow> replace_all old new (c # cs) =
     (if prefix old (c # cs) then new @ replace_all old new (drop (length old) (c # cs))
      else c # replace_all old new cs)"
  by (subst replace_all.simps) simp

lemma replace_all_absent: "\<not> sublist old s \<Longrightarrow> replace_all old new s = s"
proof (induction s)
  case (Cons c cs)
  then have "\<not> prefix old (c # cs)" "\<not> sublist old cs" "old \<noteq> []"
    by (auto simp: sublist_Cons_right)
  with Cons.IH show ?case by (simp add: replace_all_Cons)
qed simp

lemma replace_all_prefix:
  "old \<noteq> [] \<Longrightarrow> replace_all old new (old @ s) = new @ replace_all old new s"
  by (subst replace_all.simps) (auto split: list.splits simp: append_eq_Cons_conv)

lemma replace_all_length: "length new \<le> length old \<Longrightarrow> length (replace_all old new s) \<le> length s"
proof (induction old new s rule: replace_all.induct)
  case (1 old new s)
  show ?case
  proof (cases "old = [] \<or> s = []")
    case True
    then show ?thesis by (auto simp: replace_all.simps [of old new s])
  next
    case False
    then obtain c cs where s: "s = c # cs" and old: "old \<noteq> []" by (cases s) auto
    show ?thesis
    proof (cases "prefix old s")
      case True
      then have "length old \<le> length s" by (rule prefix_length_le)
      with 1(1) [OF old s True 1(3)] True old s 1(3) show ?thesis
        by (simp add: replace_all_Cons)
    next
      case False
      with 1(2) [OF old s False 1(3)] old s show ?thesis by (simp add: replace_all_Cons)
    qed
  qed
qed

lemma replace_all_shrinks:
  "length new < length old \<Longrightarrow> sublist old s \<Longrightarrow> length (replace_all old new s) < length s"
proof (induction s)
  case (Cons c cs)
  have old: "old \<noteq> []" using Cons.prems(1) by auto
  show ?case
  proof (cases "prefix old (c # cs)")
    case True
    then have "length old \<le> length (c # cs)" by (rule prefix_length_le)
    moreover have "length (replace_all old new (drop (length old) (c # cs)))
        \<le> length (drop (length old) (c # cs))"
      using Cons.prems(1) by (intro replace_all_length) simp
    ultimately show ?thesis using True old Cons.prems(1) by (simp add: replace_all_Cons)
  next
    case False
    with Cons.prems(2) have "sublist old cs" by (simp add: sublist_Cons_right)
    with Cons.IH Cons.prems(1) have "length (replace_all old new cs) < length cs" by simp
    with False old show ?thesis by (simp add: replace_all_Cons)
  qed
qed simp

end
