(* ===== verification/Go_Net.thy ===== *)
theory Go_Net
  imports Go_Strings
begin

text \<open>
  The functions of Go's \<open>net\<close> and \<open>strconv\<close> packages that the program calls. An address
  (\<open>net.IP\<close>) is a byte list: empty for \<open>nil\<close>, four bytes for IPv4, sixteen for IPv6 and for the
  IPv4-mapped form that \<open>ParseIP\<close> returns.
\<close>

unbundle bit_operations_syntax

section \<open>Addresses\<close>

type_synonym byte = "8 word"
type_synonym ip = "byte list"

definition v4_in_v6_prefix :: ip where
  "v4_in_v6_prefix = [0,0,0,0,0,0,0,0,0,0,255,255]"

definition to4 :: "ip \<Rightarrow> ip" where
  "to4 p = (if length p = 4 then p
            else if length p = 16 \<and> take 12 p = v4_in_v6_prefix then drop 12 p
            else [])"

definition to16 :: "ip \<Rightarrow> ip" where
  "to16 p = (if length p = 4 then v4_in_v6_prefix @ p else if length p = 16 then p else [])"

definition ip_equal :: "ip \<Rightarrow> ip \<Rightarrow> bool" where
  "ip_equal p q =
     (if length p = length q then p = q
      else if length p = 4 \<and> length q = 16 then take 12 q = v4_in_v6_prefix \<and> p = drop 12 q
      else if length p = 16 \<and> length q = 4 then take 12 p = v4_in_v6_prefix \<and> drop 12 p = q
      else False)"

lemma length_v4_prefix [simp]: "length v4_in_v6_prefix = 12"
  by (simp add: v4_in_v6_prefix_def)

lemma ip_equal_refl [simp]: "ip_equal p p"
  by (simp add: ip_equal_def)

lemma ip_equal_sym: "ip_equal p q \<Longrightarrow> ip_equal q p"
  by (auto simp: ip_equal_def split: if_splits)

lemma ip_equal_to4: "ip_equal p q \<Longrightarrow> to4 p = to4 q"
  by (auto simp: ip_equal_def to4_def split: if_splits)

lemma length_to4: "to4 p \<noteq> [] \<Longrightarrow> length (to4 p) = 4"
  by (auto simp: to4_def split: if_splits)

lemma length_to16: "length p = 4 \<or> length p = 16 \<Longrightarrow> length (to16 p) = 16"
  by (auto simp: to16_def)

definition ipv6_loopback :: ip where "ipv6_loopback = replicate 15 0 @ [1]"
definition ipv6_unspecified :: ip where "ipv6_unspecified = replicate 16 0"
definition ipv4_zero :: ip where "ipv4_zero = v4_in_v6_prefix @ [0,0,0,0]"
definition ipv4_bcast :: ip where "ipv4_bcast = v4_in_v6_prefix @ [255,255,255,255]"

definition is_unspecified :: "ip \<Rightarrow> bool" where
  "is_unspecified p = (ip_equal p ipv4_zero \<or> ip_equal p ipv6_unspecified)"

definition is_loopback :: "ip \<Rightarrow> bool" where
  "is_loopback p = (case to4 p of b # _ \<Rightarrow> b = 127 | [] \<Rightarrow> ip_equal p ipv6_loopback)"

definition is_multicast :: "ip \<Rightarrow> bool" where
  "is_multicast p =
     (case to4 p of b # _ \<Rightarrow> b AND 0xF0 = 0xE0 | [] \<Rightarrow> length p = 16 \<and> p ! 0 = 0xFF)"

definition is_link_local_unicast :: "ip \<Rightarrow> bool" where
  "is_link_local_unicast p =
     (case to4 p of b # c # _ \<Rightarrow> b = 169 \<and> c = 254
      | _ \<Rightarrow> length p = 16 \<and> p ! 0 = 0xFE \<and> p ! 1 AND 0xC0 = 0x80)"

definition is_global_unicast :: "ip \<Rightarrow> bool" where
  "is_global_unicast p =
     ((length p = 4 \<or> length p = 16) \<and> \<not> ip_equal p ipv4_bcast \<and> \<not> is_unspecified p
      \<and> \<not> is_loopback p \<and> \<not> is_multicast p \<and> \<not> is_link_local_unicast p)"

section \<open>Numbers in text\<close>

definition is_digit :: "char \<Rightarrow> bool" where
  "is_digit c \<longleftrightarrow> 48 \<le> (of_char c :: nat) \<and> (of_char c :: nat) \<le> 57"

definition digit_val :: "char \<Rightarrow> nat" where
  "digit_val c = of_char c - 48"

definition is_hex :: "char \<Rightarrow> bool" where
  "is_hex c \<longleftrightarrow> is_digit c \<or> (let n = (of_char c :: nat) in (97 \<le> n \<and> n \<le> 102) \<or> (65 \<le> n \<and> n \<le> 70))"

definition hex_val :: "char \<Rightarrow> nat" where
  "hex_val c = (let n = (of_char c :: nat)
                in if is_digit c then n - 48 else if 97 \<le> n then n - 87 else n - 55)"

definition digit_char :: "nat \<Rightarrow> char" where
  "digit_char d = char_of (if d < 10 then d + 48 else d + 87)"

text \<open>\<open>strconv.FormatUint\<close> in a base up to sixteen.\<close>

function base_string :: "nat \<Rightarrow> nat \<Rightarrow> string" where
  "base_string b n =
     (if n < b \<or> b < 2 then [digit_char n] else base_string b (n div b) @ [digit_char (n mod b)])"
  by pat_completeness auto
termination
  by (relation "measure snd") auto

declare base_string.simps [simp del]

definition dec_string :: "nat \<Rightarrow> string" where "dec_string n = base_string 10 n"
definition hex_string :: "nat \<Rightarrow> string" where "hex_string n = base_string 16 n"

text \<open>
  The value \<open>strconv.Atoi\<close> returns when its error is ignored: 0 for a syntax error, the
  nearest 64-bit bound for a number out of range.
\<close>

fun scan_uint :: "nat \<Rightarrow> string \<Rightarrow> nat option" where
  "scan_uint n [] = Some n"
| "scan_uint n (c # cs) =
     (if \<not> is_digit c then None
      else (let n1 = n * 10 + digit_val c
            in if 2 ^ 64 \<le> n1 then Some (2 ^ 64 - 1) else scan_uint n1 cs))"

definition atoi_magnitude :: "string \<Rightarrow> nat option" where
  "atoi_magnitude ds = (if ds = [] then None else scan_uint 0 ds)"

definition atoi :: "string \<Rightarrow> int" where
  "atoi s =
     (case s of
        [] \<Rightarrow> 0
      | c # cs \<Rightarrow>
          (if c = CHR ''-''
           then (case atoi_magnitude cs of None \<Rightarrow> 0 | Some n \<Rightarrow> max (- (2 ^ 63)) (- int n))
           else (case atoi_magnitude (if c = CHR ''+'' then cs else s) of
                   None \<Rightarrow> 0 | Some n \<Rightarrow> min (2 ^ 63 - 1) (int n))))"

section \<open>Parsing addresses\<close>

fun dec_val :: "nat \<Rightarrow> string \<Rightarrow> nat" where
  "dec_val n [] = n"
| "dec_val n (c # cs) = dec_val (n * 10 + digit_val c) cs"

fun hex_value :: "nat \<Rightarrow> string \<Rightarrow> nat" where
  "hex_value n [] = n"
| "hex_value n (c # cs) = hex_value (n * 16 + hex_val c) cs"

definition parse_octet :: "string \<Rightarrow> byte option" where
  "parse_octet w =
     (if w = [] \<or> \<not> list_all is_digit w \<or> (1 < length w \<and> hd w = CHR ''0'') \<or> 255 < dec_val 0 w
      then None else Some (of_nat (dec_val 0 w)))"

definition parse_ipv4 :: "string \<Rightarrow> byte list option" where
  "parse_ipv4 s =
     (let ws = split_on (CHR ''.'') s in if length ws = 4 then those (map parse_octet ws) else None)"

text \<open>
  One round of the loop over the groups of an IPv6 address: a hexadecimal group, what follows
  it, and the bytes, the ellipsis position and the text with which the loop goes on.
\<close>

datatype v6_round =
    V6_Fail
  | V6_Done "byte list" "nat option"
  | V6_More string "byte list" "nat option"

definition after_group :: "string \<Rightarrow> byte list \<Rightarrow> nat option \<Rightarrow> v6_round" where
  "after_group rest acc ell =
     (case rest of
        [] \<Rightarrow> V6_Done acc ell
      | c # r1 \<Rightarrow>
          (if c \<noteq> CHR '':'' then V6_Fail
           else (case r1 of
                   [] \<Rightarrow> V6_Fail
                 | d # r2 \<Rightarrow>
                     (if d \<noteq> CHR '':'' then V6_More r1 acc ell
                      else if ell \<noteq> None then V6_Fail
                      else if r2 = [] then V6_Done acc (Some (length acc))
                      else V6_More r2 acc (Some (length acc))))))"

definition parse_group :: "string \<Rightarrow> byte list \<Rightarrow> nat option \<Rightarrow> v6_round" where
  "parse_group s acc ell =
     (let hs = takeWhile is_hex s; rest = drop (length hs) s in
      if hs = [] \<or> 4 < length hs then V6_Fail
      else if rest \<noteq> [] \<and> hd rest = CHR ''.'' then
        (if ell = None \<and> length acc \<noteq> 12 \<or> 16 < length acc + 4 then V6_Fail
         else (case parse_ipv4 s of None \<Rightarrow> V6_Fail | Some b \<Rightarrow> V6_Done (acc @ b) ell))
      else after_group rest
             (acc @ [of_nat (hex_value 0 hs div 256), of_nat (hex_value 0 hs mod 256)]) ell)"

text \<open>
  Every round adds two bytes and the loop runs while there are fewer than sixteen, so eight
  rounds are the whole loop; text that is left after them is refused by the caller.
\<close>

fun parse_groups ::
  "nat \<Rightarrow> string \<Rightarrow> byte list \<Rightarrow> nat option \<Rightarrow> (byte list \<times> nat option \<times> string) option"
where
  "parse_groups 0 s acc ell = Some (acc, ell, s)"
| "parse_groups (Suc n) s acc ell =
     (case parse_group s acc ell of
        V6_Fail \<Rightarrow> None
      | V6_Done bs e \<Rightarrow> Some (bs, e, [])
      | V6_More s' bs e \<Rightarrow> parse_groups n s' bs e)"

definition expand_ellipsis :: "byte list \<times> nat option \<times> string \<Rightarrow> ip option" where
  "expand_ellipsis x =
     (case x of (bs, ell, rest) \<Rightarrow>
        if rest \<noteq> [] then None
        else (case ell of
                None \<Rightarrow> if length bs < 16 then None else Some bs
              | Some e \<Rightarrow>
                  if length bs < 16
                  then Some (take e bs @ replicate (16 - length bs) 0 @ drop e bs) else None))"

definition parse_ipv6 :: "string \<Rightarrow> ip option" where
  "parse_ipv6 s =
     (if CHR ''%'' \<in> set s then None
      else if prefix ''::'' s
      then (if drop 2 s = [] then Some ipv6_unspecified
            else Option.bind (parse_groups 8 (drop 2 s) [] (Some 0)) expand_ellipsis)
      else Option.bind (parse_groups 8 s [] None) expand_ellipsis)"

text \<open>\<open>net.ParseIP\<close>: the kind of address is decided by the first of \<open>.\<close>, \<open>:\<close> and \<open>%\<close>.\<close>

definition parse_ip :: "string \<Rightarrow> ip" where
  "parse_ip s =
     (case find (\<lambda>c. c \<in> {CHR ''.'', CHR '':'', CHR ''%''}) s of
        None \<Rightarrow> []
      | Some c \<Rightarrow>
          if c = CHR ''.'' then (case parse_ipv4 s of None \<Rightarrow> [] | Some b \<Rightarrow> v4_in_v6_prefix @ b)
          else if c = CHR '':'' then (case parse_ipv6 s of None \<Rightarrow> [] | Some b \<Rightarrow> b)
          else [])"

lemma those_length: "those xs = Some ys \<Longrightarrow> length ys = length xs"
  by (induction xs arbitrary: ys) (auto split: option.splits)

lemma parse_ipv4_length: "parse_ipv4 s = Some b \<Longrightarrow> length b = 4"
  by (auto simp: parse_ipv4_def Let_def split: if_splits dest: those_length)

lemma after_group_length:
  "after_group rest acc ell = V6_Done bs e \<Longrightarrow> bs = acc"
  "after_group rest acc ell = V6_More s' bs e \<Longrightarrow> bs = acc"
  by (auto simp: after_group_def split: list.splits if_splits)

lemma parse_group_length:
  "parse_group s acc ell = V6_Done bs e \<Longrightarrow> length acc \<le> 14 \<Longrightarrow> length bs \<le> 16"
  "parse_group s acc ell = V6_More s' bs e \<Longrightarrow> length bs = length acc + 2"
  by (auto simp: parse_group_def Let_def dest!: parse_ipv4_length after_group_length
      split: if_splits option.splits)

lemma parse_groups_length:
  "parse_groups n s acc ell = Some (bs, e, r) \<Longrightarrow> length acc + 2 * n \<le> 16 \<Longrightarrow> length bs \<le> 16"
proof (induction n arbitrary: s acc ell)
  case (Suc n)
  show ?case
  proof (cases "parse_group s acc ell")
    case (V6_Done bs' e')
    with Suc.prems parse_group_length(1) [OF V6_Done] show ?thesis by simp
  next
    case (V6_More s' bs' e')
    from Suc.IH [of s' bs' e'] Suc.prems parse_group_length(2) [OF V6_More] V6_More
    show ?thesis by simp
  qed (use Suc.prems in simp)
qed simp

lemma expand_ellipsis_length:
  "expand_ellipsis (bs, e, r) = Some p \<Longrightarrow> length bs \<le> 16 \<Longrightarrow> length p = 16"
  by (auto simp: expand_ellipsis_def split: if_splits option.splits)

lemma parse_ipv6_length: "parse_ipv6 s = Some p \<Longrightarrow> length p = 16"
  by (auto simp: parse_ipv6_def bind_eq_Some_conv ipv6_unspecified_def split: if_splits
      dest!: expand_ellipsis_length elim: parse_groups_length)

lemma parse_ip_length: "parse_ip s \<noteq> [] \<Longrightarrow> length (parse_ip s) = 16"
  by (auto simp: parse_ip_def dest: parse_ipv4_length parse_ipv6_length
      split: option.splits if_splits)

section \<open>Printing addresses\<close>

definition ipv4_string :: "ip \<Rightarrow> string" where
  "ipv4_string p = join_with (CHR ''.'') (map (dec_string \<circ> unat) p)"

fun v6_groups :: "ip \<Rightarrow> nat list" where
  "v6_groups (a # b # rest) = (unat a * 256 + unat b) # v6_groups rest"
| "v6_groups _ = []"

text \<open>The first longest run of at least two zero groups, as its start and end.\<close>

definition zero_run :: "nat list \<Rightarrow> nat \<Rightarrow> nat" where
  "zero_run gs i = length (takeWhile (\<lambda>g. g = 0) (drop i gs))"

definition best_run :: "nat list \<Rightarrow> (nat \<times> nat) option" where
  "best_run gs =
     fold (\<lambda>i best. let l = zero_run gs i; cur = (case best of None \<Rightarrow> 0 | Some (a, b) \<Rightarrow> b - a)
                    in if 2 \<le> l \<and> cur < l then Some (i, i + l) else best)
          [0..<8] None"

definition join_colon :: "nat list \<Rightarrow> string" where
  "join_colon gs = join_with (CHR '':'') (map hex_string gs)"

definition ipv6_string :: "ip \<Rightarrow> string" where
  "ipv6_string p =
     (let gs = v6_groups p
      in case best_run gs of
           None \<Rightarrow> join_colon gs
         | Some (a, b) \<Rightarrow> join_colon (take a gs) @ ''::'' @ join_colon (drop b gs))"

text \<open>\<open>net.IP.String\<close>; other lengths print their bytes in hexadecimal after a question mark.\<close>

definition ip_string :: "ip \<Rightarrow> string" where
  "ip_string p =
     (if p = [] then ''<nil>''
      else if length p \<noteq> 4 \<and> length p \<noteq> 16
      then ''?'' @ concat (map (\<lambda>b. [digit_char (unat b div 16), digit_char (unat b mod 16)]) p)
      else if to4 p \<noteq> [] then ipv4_string (to4 p)
      else ipv6_string p)"

section \<open>Host and port\<close>

fun index_of :: "char \<Rightarrow> string \<Rightarrow> nat option" where
  "index_of c [] = None"
| "index_of c (x # xs) = (if x = c then Some 0 else map_option Suc (index_of c xs))"

definition last_index :: "char \<Rightarrow> string \<Rightarrow> nat option" where
  "last_index c s = map_option (\<lambda>i. length s - Suc i) (index_of c (rev s))"

text \<open>\<open>net.SplitHostPort\<close>: \<open>None\<close> for each of its errors.\<close>

definition split_host_port :: "string \<Rightarrow> (string \<times> string) option" where
  "split_host_port hp =
     (case last_index (CHR '':'') hp of
        None \<Rightarrow> None
      | Some i \<Rightarrow>
          if hd hp = CHR ''['' then
            (case index_of (CHR '']'') hp of
               None \<Rightarrow> None
             | Some e \<Rightarrow>
                 if Suc e = length hp \<or> Suc e \<noteq> i then None
                 else if CHR ''['' \<in> set (drop 1 hp) \<or> CHR '']'' \<in> set (drop (Suc e) hp) then None
                 else Some (take (e - 1) (drop 1 hp), drop (Suc i) hp))
          else if CHR '':'' \<in> set (take i hp) then None
          else if CHR ''['' \<in> set hp \<or> CHR '']'' \<in> set hp then None
          else Some (take i hp, drop (Suc i) hp))"

text \<open>\<open>net.JoinHostPort\<close>.\<close>

definition join_host_port :: "string \<Rightarrow> string \<Rightarrow> string" where
  "join_host_port host port =
     (if CHR '':'' \<in> set host then ''['' @ host @ '']:'' @ port else host @ '':'' @ port)"

lemma index_of_append: "c \<notin> set u \<Longrightarrow> index_of c (u @ c # v) = Some (length u)"
  by (induction u) auto

lemma last_index_append: "c \<notin> set v \<Longrightarrow> last_index c (u @ c # v) = Some (length u)"
  by (simp add: last_index_def index_of_append)

lemma split_join_host_port:
  assumes "CHR ''['' \<notin> set host" "CHR '']'' \<notin> set host"
    and "CHR '':'' \<notin> set port" "CHR ''['' \<notin> set port" "CHR '']'' \<notin> set port"
  shows "split_host_port (join_host_port host port) = Some (host, port)"
proof (cases "CHR '':'' \<in> set host")
  case True
  let ?s = "''['' @ host @ '']:'' @ port"
  have "last_index (CHR '':'') ?s = Some (length host + 2)"
    using last_index_append [OF assms(3), of "''['' @ host @ '']''"] by simp
  moreover have "index_of (CHR '']'') ?s = Some (length host + 1)"
    using index_of_append [of "CHR '']''" "''['' @ host" "'':'' @ port"] assms(2) by simp
  ultimately show ?thesis
    using True assms by (simp add: split_host_port_def join_host_port_def)
next
  case False
  have "last_index (CHR '':'') (host @ '':'' @ port) = Some (length host)"
    using last_index_append [OF assms(3), of host] by simp
  moreover have "hd (host @ '':'' @ port) \<noteq> CHR ''[''"
    using assms(1) by (cases host) auto
  ultimately show ?thesis
    using False assms by (simp add: split_host_port_def join_host_port_def)
qed

end
