(* ===== verification/Dns_Types.thy ===== *)
theory Dns_Types
  imports Go_Net
begin

text \<open>
  The messages the program handles, and the DNS library it is built on. The library
  (\<open>github.com/miekg/dns\<close>) is not part of the repository: a message has the fields the program
  reads or writes, and the library's functions are the fields of a parameter, \<open>dns_lib\<close>.
  What the program relies on is stated by the predicates \<open>reply_law\<close> to \<open>len_law\<close>, which
  theorems name as hypotheses; \<open>sample_lib\<close> is a concrete library that satisfies them.
\<close>

section \<open>Questions, records, messages\<close>

record question =
  q_name :: string
  q_type :: "16 word"
  q_class :: "16 word"

text \<open>The record data the program constructs or inspects; other types are opaque.\<close>

datatype rdata =
    RD_A ip
  | RD_AAAA ip
  | RD_CNAME string
  | RD_PTR string
  | RD_TXT "string list"
  | RD_SOA (soa_serial: "32 word") (soa_rest: string)
  | RD_SRV (srv_priority: "16 word") (srv_weight: "16 word") (srv_port: "16 word") (srv_target: string)
  | RD_NSEC3 (next_domain: string) (nsec3_rest: string)
  | RD_DNSKEY string
  | RD_NS string
  | RD_Other string

record rr =
  rr_name :: string
  rr_type :: "16 word"
  rr_class :: "16 word"
  rr_ttl :: "32 word"
  rr_data :: rdata

record msg =
  m_id :: "16 word"
  m_authoritative :: bool
  m_truncated :: bool
  m_recursion_available :: bool
  m_rcode :: int
  m_compress :: bool
  m_question :: "question list"
  m_answer :: "rr list"
  m_ns :: "rr list"
  m_extra :: "rr list"

text \<open>\<open>new(dns.Msg)\<close>: every field has its zero value.\<close>

definition new_msg :: msg where
  "new_msg = \<lparr>m_id = 0, m_authoritative = False, m_truncated = False,
     m_recursion_available = False, m_rcode = 0, m_compress = False,
     m_question = [], m_answer = [], m_ns = [], m_extra = []\<rparr>"

text \<open>The registered numbers the code names.\<close>

abbreviation (input) type_A :: "16 word" where "type_A \<equiv> 1"
abbreviation (input) type_CNAME :: "16 word" where "type_CNAME \<equiv> 5"
abbreviation (input) type_PTR :: "16 word" where "type_PTR \<equiv> 12"
abbreviation (input) type_TXT :: "16 word" where "type_TXT \<equiv> 16"
abbreviation (input) type_AAAA :: "16 word" where "type_AAAA \<equiv> 28"
abbreviation (input) type_ANY :: "16 word" where "type_ANY \<equiv> 255"
abbreviation (input) class_INET :: "16 word" where "class_INET \<equiv> 1"
abbreviation (input) class_CHAOS :: "16 word" where "class_CHAOS \<equiv> 3"
abbreviation (input) rcode_success :: int where "rcode_success \<equiv> 0"
abbreviation (input) rcode_server_failure :: int where "rcode_server_failure \<equiv> 2"
abbreviation (input) rcode_name_error :: int where "rcode_name_error \<equiv> 3"
abbreviation (input) rcode_refused :: int where "rcode_refused \<equiv> 5"
abbreviation (input) max_msg_size :: int where "max_msg_size \<equiv> 65535"

section \<open>The library as a parameter\<close>

text \<open>
  \<open>set_reply\<close> and \<open>set_rcode\<close> take the receiver and the request and return the receiver's new
  value; \<open>is_edns0\<close> gives the UDP size and the DO bit of the OPT record, if there is one;
  \<open>reverse_addr\<close> gives the empty string where the library returns an error.
\<close>

record dns_lib =
  set_reply :: "msg \<Rightarrow> msg \<Rightarrow> msg"
  set_rcode :: "msg \<Rightarrow> msg \<Rightarrow> int \<Rightarrow> msg"
  fqdn :: "string \<Rightarrow> string"
  count_label :: "string \<Rightarrow> int"
  reverse_addr :: "string \<Rightarrow> string"
  msg_len :: "msg \<Rightarrow> int"
  is_edns0 :: "msg \<Rightarrow> ((16 word) \<times> bool) option"

text \<open>
  \<open>SetReply\<close> turns the receiver into a reply to the request: its identifier, response code
  success, the request's question; the answer section is left as it is.
\<close>

definition reply_law :: "dns_lib \<Rightarrow> bool" where
  "reply_law L \<longleftrightarrow>
     (\<forall>m req. let r = set_reply L m req in
        m_id r = m_id req \<and> m_rcode r = rcode_success \<and> m_answer r = m_answer m \<and>
        m_question r = (case m_question req of [] \<Rightarrow> m_question m | q # _ \<Rightarrow> [q]))"

text \<open>\<open>SetRcode\<close> is \<open>SetReply\<close> with the given response code.\<close>

definition rcode_law :: "dns_lib \<Rightarrow> bool" where
  "rcode_law L \<longleftrightarrow> (\<forall>m req rc. set_rcode L m req rc = (set_reply L m req)\<lparr>m_rcode := rc\<rparr>)"

text \<open>\<open>Fqdn\<close> appends the final dot where it is missing.\<close>

definition fqdn_law :: "dns_lib \<Rightarrow> bool" where
  "fqdn_law L \<longleftrightarrow> (\<forall>s. fqdn L s = (if has_suffix s ''.'' then s else s @ ''.''))"

text \<open>
  \<open>Len\<close> is the length of the message on the wire: it does not depend on header flags, and a
  message with fewer answers is not longer.
\<close>

definition len_law :: "dns_lib \<Rightarrow> bool" where
  "len_law L \<longleftrightarrow>
     (\<forall>m b. msg_len L (m\<lparr>m_truncated := b\<rparr>) = msg_len L m) \<and>
     (\<forall>m i j. i \<le> j \<longrightarrow> msg_len L (m\<lparr>m_answer := take i (m_answer m)\<rparr>)
                          \<le> msg_len L (m\<lparr>m_answer := take j (m_answer m)\<rparr>))"

lemma set_reply_simps:
  assumes "reply_law L"
  shows "m_id (set_reply L m req) = m_id req" "m_rcode (set_reply L m req) = 0"
    and "m_answer (set_reply L m req) = m_answer m"
    and "m_question req = q # qs \<Longrightarrow> m_question (set_reply L m req) = [q]"
  using assms by (auto simp: reply_law_def Let_def)

lemma set_rcode_simps:
  assumes "reply_law L" "rcode_law L"
  shows "m_id (set_rcode L m req rc) = m_id req" "m_rcode (set_rcode L m req rc) = rc"
    and "m_answer (set_rcode L m req rc) = m_answer m"
    and "m_question req = q # qs \<Longrightarrow> m_question (set_rcode L m req rc) = [q]"
  using assms by (auto simp: reply_law_def rcode_law_def Let_def)

lemma fqdn_dot: "fqdn_law L \<Longrightarrow> has_suffix (fqdn L s) ''.''"
  by (auto simp: fqdn_law_def has_suffix_iff)

section \<open>A concrete library\<close>

definition sample_reply :: "msg \<Rightarrow> msg \<Rightarrow> msg" where
  "sample_reply m req =
     m\<lparr>m_id := m_id req, m_rcode := 0,
       m_question := (case m_question req of [] \<Rightarrow> m_question m | q # _ \<Rightarrow> [q])\<rparr>"

definition sample_fqdn :: "string \<Rightarrow> string" where
  "sample_fqdn s = (if has_suffix s ''.'' then s else s @ ''.'')"

definition sample_reverse :: "string \<Rightarrow> string" where
  "sample_reverse s =
     (if parse_ip s = [] then []
      else if to4 (parse_ip s) \<noteq> []
      then join_with (CHR ''.'') (rev (split_on (CHR ''.'') s)) @ ''.in-addr.arpa.''
      else concat (map (\<lambda>b. hex_string (unat b mod 16) @ ''.'' @ hex_string (unat b div 16) @ ''.'')
                     (rev (parse_ip s))) @ ''ip6.arpa.'')"

definition sample_lib :: dns_lib where
  "sample_lib =
     \<lparr>set_reply = sample_reply,
      set_rcode = (\<lambda>m req rc. (sample_reply m req)\<lparr>m_rcode := rc\<rparr>),
      fqdn = sample_fqdn,
      count_label = (\<lambda>s. int (length (filter (\<lambda>w. w \<noteq> []) (split_on (CHR ''.'') s)))),
      reverse_addr = sample_reverse,
      msg_len = (\<lambda>m. 12 + 16 * int (length (m_question m)) + 16 * int (length (m_answer m))
                   + 16 * int (length (m_ns m)) + 16 * int (length (m_extra m))),
      is_edns0 = (\<lambda>m. None)\<rparr>"

lemma sample_reply_law [simp]: "reply_law sample_lib"
  by (simp add: reply_law_def sample_lib_def sample_reply_def Let_def)

lemma sample_rcode_law [simp]: "rcode_law sample_lib"
  by (simp add: rcode_law_def sample_lib_def)

lemma sample_fqdn_law [simp]: "fqdn_law sample_lib"
  by (simp add: fqdn_law_def sample_lib_def sample_fqdn_def)

lemma sample_len_law [simp]: "len_law sample_lib"
  by (auto simp: len_law_def sample_lib_def min_def)

lemma sample_msg_len:
  "msg_len sample_lib m = 12 + 16 * int (length (m_question m)) + 16 * int (length (m_answer m))
     + 16 * int (length (m_ns m)) + 16 * int (length (m_extra m))"
  by (simp add: sample_lib_def)

text \<open>A concrete question, a record that answers it, and the reply made of them.\<close>

definition sample_q :: question where
  "sample_q = \<lparr>q_name = ''a.b.'', q_type = type_A, q_class = class_INET\<rparr>"

definition sample_rr :: rr where
  "sample_rr = \<lparr>rr_name = ''a.b.'', rr_type = type_A, rr_class = class_INET, rr_ttl = 30,
                rr_data = RD_A [10, 0, 0, 1]\<rparr>"

definition sample_m :: msg where
  "sample_m = new_msg\<lparr>m_question := [sample_q], m_answer := [sample_rr]\<rparr>"

lemma sample_q_simps [simp]:
  "q_name sample_q = ''a.b.''" "q_type sample_q = 1" "q_class sample_q = 1"
  by (simp_all add: sample_q_def)

lemma sample_q_dot [simp]: "has_suffix ''a.b.'' ''.''"
  by (simp add: has_suffix_iff)

end
