(* ===== verification/Cache.thy ===== *)
theory Cache
  imports Dns_Types
begin

text \<open>
  The response cache (\<open>cache/cache.go\<close>, \<open>cache/hit.go\<close>): keys, expiry, eviction, insertion and
  lookup. Times are nanoseconds, \<open>clk i\<close> is the \<open>i\<close>-th reading of the clock an operation makes
  (\<open>time.Now\<close>, \<open>time.Since\<close>), and \<open>pick i\<close> is the order in which its \<open>i\<close>-th \<open>range\<close> loop visits
  the map. Every operation is one critical section of the cache's lock, except \<open>hit\<close>, whose
  sections are separate definitions that \<open>Cache_Concurrent\<close> takes apart and \<open>Live_Server\<close> interleaves.
\<close>

section \<open>State\<close>

record elem =
  expiration :: int
  e_msg :: msg
  stale_expiration :: int
  hits :: "64 word"
  stale_hits :: "64 word"
  ttl_seconds :: "32 word"

record cache =
  capacity :: int
  entries :: "(string, elem) fmap"
  ttl :: int
  stale_ttl :: int
  ttl_from_resp :: bool
  ttl_max :: int
  ttl_min_seconds :: "32 word"
  ttl_max_seconds :: "32 word"

text \<open>\<open>time.Duration(n) * time.Second\<close>, a signed 64-bit product.\<close>

definition seconds :: "int \<Rightarrow> int" where
  "seconds n = signed_take_bit 63 (n * 1000000000)"

definition new_cache :: "int \<Rightarrow> int \<Rightarrow> int \<Rightarrow> bool \<Rightarrow> int \<Rightarrow> cache" where
  "new_cache cap t st from_resp tmax =
     \<lparr>capacity = cap, entries = fmempty, ttl = seconds t, stale_ttl = seconds st,
      ttl_from_resp = from_resp, ttl_max = seconds tmax,
      ttl_min_seconds = word_of_int t, ttl_max_seconds = word_of_int tmax\<rparr>"

definition cache_capacity :: "cache \<Rightarrow> int" where
  "cache_capacity c = capacity c"

definition cache_size :: "cache \<Rightarrow> nat" where
  "cache_size c = fmsize (entries c)"

definition remove :: "string \<Rightarrow> cache \<Rightarrow> cache" where
  "remove s c = c\<lparr>entries := fmdrop s (entries c)\<rparr>"

section \<open>Eviction\<close>

text \<open>
  The body of the loop of \<open>evictRandomInternal\<close>: \<open>i\<close> counts down from \<open>capacity - len\<close>, and the
  key visited when it is 0 is deleted. (A visited key is in the map; the last branch is never
  taken.)
\<close>

fun evict_loop ::
  "bool \<Rightarrow> int \<Rightarrow> int \<Rightarrow> string list \<Rightarrow> (string, elem) fmap \<Rightarrow> (string, elem) fmap"
where
  "evict_loop only_stale now i [] m = m"
| "evict_loop only_stale now i (k # ks) m =
     evict_loop only_stale now (i - 1) ks
       (if i = 0 then
          (if only_stale then
             (case fmlookup m k of
                Some e \<Rightarrow> if now - stale_expiration e > 0 then fmdrop k m else m
              | None \<Rightarrow> m)
           else fmdrop k m)
        else m)"

definition evict_random_internal :: "bool \<Rightarrow> int \<Rightarrow> string order_fun \<Rightarrow> cache \<Rightarrow> cache" where
  "evict_random_internal only_stale now pick c =
     (let clen = int (fmsize (entries c)) in
      if clen < capacity c then c
      else c\<lparr>entries := evict_loop only_stale now (capacity c - clen)
                         (pick (fmdom (entries c))) (entries c)\<rparr>)"

definition evict_random ::
  "int \<Rightarrow> (nat \<Rightarrow> string order_fun) \<Rightarrow> cache \<Rightarrow> cache"
where
  "evict_random now pick c =
     evict_random_internal False now (pick 1) (evict_random_internal True now (pick 0) c)"

section \<open>Insertion\<close>

definition get_lowest_ttl :: "msg \<Rightarrow> 32 word \<Rightarrow> 32 word \<Rightarrow> 32 word" where
  "get_lowest_ttl r lo hi =
     (let ttls = map rr_ttl (m_answer r);
          ttls = (if length ttls = 0 then ttls @ [0] else ttls);
          val = Min (set ttls)
      in if val < lo then lo else if val > hi then hi else val)"

text \<open>Whether an existing entry is renewed: it has expired and its stale period has not.\<close>

definition renewable :: "(nat \<Rightarrow> int) \<Rightarrow> elem \<Rightarrow> bool" where
  "renewable clk e \<longleftrightarrow> clk 0 - expiration e > 0 \<and> clk 1 - stale_expiration e < 0"

definition new_elem :: "(nat \<Rightarrow> int) \<Rightarrow> msg \<Rightarrow> cache \<Rightarrow> elem" where
  "new_elem clk m c =
     (let lowest = get_lowest_ttl m (ttl_min_seconds c) (ttl_max_seconds c) in
      \<lparr>expiration = (if ttl_from_resp c then clk 3 + seconds (uint lowest) else clk 2 + ttl c),
       e_msg = m,
       stale_expiration = clk 4 + stale_ttl c,
       hits = 0, stale_hits = 0,
       ttl_seconds = (if ttl_from_resp c then lowest else 0)\<rparr>)"

definition insert_message ::
  "(nat \<Rightarrow> int) \<Rightarrow> (nat \<Rightarrow> string order_fun) \<Rightarrow> string \<Rightarrow> msg \<Rightarrow> cache \<Rightarrow> cache"
where
  "insert_message clk pick s m c =
     (if capacity c \<le> 0 then c
      else
        (let old = fmlookup (entries c) s;
             renew = (case old of None \<Rightarrow> False | Some e \<Rightarrow> renewable clk e);
             c1 = (if old = None \<or> renew
                   then c\<lparr>entries := fmupd s (new_elem clk m c) (entries c)\<rparr> else c)
         in evict_random (clk 5) pick c1))"

section \<open>Lookup\<close>

text \<open>\<open>time.Time{}\<close>: the first of January of year 1, relative to the Unix epoch.\<close>

definition zero_time :: int where
  "zero_time = - 62135596800 * 1000000000"

definition search :: "string \<Rightarrow> cache \<Rightarrow> msg option \<times> int \<times> int \<times> bool" where
  "search s c =
     (if capacity c \<le> 0 then (None, zero_time, zero_time, False)
      else (case fmlookup (entries c) s of
              Some e \<Rightarrow> (Some (e_msg e), expiration e, stale_expiration e, True)
            | None \<Rightarrow> (None, zero_time, zero_time, False)))"

section \<open>Keys\<close>

definition byte_char :: "byte \<Rightarrow> char" where
  "byte_char b = char_of (unat b)"

definition pack_uint16 :: "16 word \<Rightarrow> string" where
  "pack_uint16 i = [byte_char (ucast (drop_bit 8 i)), byte_char (ucast i)]"

definition pack_uint32 :: "32 word \<Rightarrow> string" where
  "pack_uint32 i = [byte_char (ucast (drop_bit 24 i)), byte_char (ucast (drop_bit 16 i)),
                    byte_char (ucast (drop_bit 8 i)), byte_char (ucast i)]"

text \<open>
  \<open>h.Sum(i)\<close> appends the digest of what was written to \<open>h\<close> to \<open>i\<close>; nothing is written, so it
  appends the SHA-1 digest of the empty input.
\<close>

definition sha1_empty :: string where
  "sha1_empty = map char_of [0xDA, 0x39, 0xA3, 0xEE, 0x5E, 0x6B, 0x4B, 0x0D, 0x32, 0x55,
                             0xBF, 0xEF, 0x95, 0x60, 0x18, 0x90, 0xAF, 0xD8, 0x07, 0x09 :: nat]"

definition cache_key :: "question \<Rightarrow> bool \<Rightarrow> bool \<Rightarrow> string" where
  "cache_key q dnssec tcp =
     (let i = q_name q @ pack_uint16 (q_type q);
          i = (if dnssec then i @ [CHR 0xFF] else i);
          i = (if tcp then i @ [CHR 0xFE] else i)
      in i @ sha1_empty)"

definition rr_key_bytes :: "rr \<Rightarrow> string" where
  "rr_key_bytes r =
     (case rr_data r of
        RD_SOA serial _ \<Rightarrow> pack_uint32 serial
      | RD_SRV prio weight port target \<Rightarrow>
          pack_uint16 prio @ pack_uint16 weight @ pack_uint16 weight @ target
      | RD_A a \<Rightarrow> map byte_char a
      | RD_AAAA a \<Rightarrow> map byte_char a
      | RD_NSEC3 nxt _ \<Rightarrow> nxt
      | _ \<Rightarrow> [])"

definition key_rrset :: "rr list \<Rightarrow> string go" where
  "key_rrset rrs =
     (case rrs of
        [] \<Rightarrow> Inl IndexRange
      | r # _ \<Rightarrow> Inr (rr_name r @ pack_uint16 (rr_type r) @ concat (map rr_key_bytes rrs) @ sha1_empty))"

section \<open>Hit\<close>

text \<open>
  \<open>Hit\<close> takes the lock three times: in \<open>Search\<close>, to count the hit, and to remove the entry.
  Counting writes through \<open>c.m[key]\<close>, which panics when the key is gone.
\<close>

definition count_hit :: "string \<Rightarrow> bool \<Rightarrow> cache \<Rightarrow> cache go" where
  "count_hit key valid c =
     (case fmlookup (entries c) key of
        None \<Rightarrow> Inl NilDeref
      | Some e \<Rightarrow>
          Inr (c\<lparr>entries := fmupd key
                 (if valid then e\<lparr>hits := hits e + 1\<rparr> else e\<lparr>stale_hits := stale_hits e + 1\<rparr>)
                 (entries c)\<rparr>))"

definition hit_reply :: "16 word \<Rightarrow> msg \<Rightarrow> msg" where
  "hit_reply msgid m = m\<lparr>m_id := msgid, m_compress := True, m_truncated := False\<rparr>"

definition hit ::
  "(nat \<Rightarrow> int) \<Rightarrow> question \<Rightarrow> bool \<Rightarrow> bool \<Rightarrow> 16 word \<Rightarrow> bool \<Rightarrow> bool \<Rightarrow> cache
    \<Rightarrow> (msg option \<times> cache) go"
where
  "hit clk q dnssec tcp msgid keep_stale return_stale c =
     (let key = cache_key q dnssec tcp;
          (m1, exp, stale_exp, found) = search key c;
          valid = clk 0 - exp < 0
      in if \<not> found then Inr (None, c)
         else if valid \<or> return_stale then
           (case m1 of
              None \<Rightarrow> Inl NilDeref
            | Some m \<Rightarrow>
                bind_go (count_hit key valid c) (\<lambda>c1.
                  Inr (Some (hit_reply msgid m),
                       if clk 1 - stale_exp > 0 then remove key c1 else c1)))
         else Inr (None, if keep_stale then c else remove key c))"

section \<open>The dump\<close>

definition q_type_to_name :: "16 word \<rightharpoonup> string" where
  "q_type_to_name = [1 \<mapsto> ''A'', 28 \<mapsto> ''AAAA'', 5 \<mapsto> ''CNAME'', 15 \<mapsto> ''MX'', 2 \<mapsto> ''NS'',
                     16 \<mapsto> ''TXT'', 6 \<mapsto> ''SOA'']"

definition get_record_type_name :: "16 word \<Rightarrow> string" where
  "get_record_type_name t =
     (case q_type_to_name t of Some n \<Rightarrow> n | None \<Rightarrow> dec_string (unat t))"

text \<open>One line of \<open>DumpCache\<close>, before the tab writer aligns its columns.\<close>

record dump_row =
  d_qtype :: string
  d_expired :: bool
  d_stale_expired :: bool
  d_ttl :: "32 word"
  d_expire_in :: int
  d_stale_expire_in :: int
  d_question :: string
  d_hits :: "64 word"
  d_stale_hits :: "64 word"

text \<open>\<open>Duration.Truncate(time.Second)\<close> rounds towards zero.\<close>

definition truncate_second :: "int \<Rightarrow> int" where
  "truncate_second d = sgn d * (\<bar>d\<bar> - \<bar>d\<bar> mod 1000000000)"

definition dump_row_of :: "int \<Rightarrow> (nat \<Rightarrow> int) \<Rightarrow> elem \<Rightarrow> dump_row" where
  "dump_row_of now clk e =
     (let qs = m_question (e_msg e) in
      \<lparr>d_qtype = get_record_type_name (if length qs = 1 then q_type (qs ! 0) else 0),
       d_expired = clk 0 - expiration e > 0,
       d_stale_expired = clk 1 - stale_expiration e > 0,
       d_ttl = ttl_seconds e,
       d_expire_in = truncate_second (expiration e - now),
       d_stale_expire_in = truncate_second (stale_expiration e - now),
       d_question = trim_cutset (concat (map (\<lambda>q. q_name q @ '','') qs)) '','',
       d_hits = hits e,
       d_stale_hits = stale_hits e\<rparr>)"

text \<open>\<open>now\<close> is read once, \<open>clk i\<close> are the readings made for the \<open>i\<close>-th entry visited.\<close>

definition dump_rows :: "int \<Rightarrow> (nat \<Rightarrow> nat \<Rightarrow> int) \<Rightarrow> string order_fun \<Rightarrow> cache \<Rightarrow> dump_row list" where
  "dump_rows now clk pick c =
     map (\<lambda>(i, k). dump_row_of now (clk i) (the (fmlookup (entries c) k)))
       (enumerate 0 (pick (fmdom (entries c))))"

section \<open>Eviction removes at most one entry, and only from a full cache\<close>

lemma evict_loop_neg: "i < 0 \<Longrightarrow> evict_loop os now i ks m = m"
  by (induction ks arbitrary: i m) auto

lemma evict_internal_other:
  "int (fmsize (entries c)) \<noteq> capacity c \<Longrightarrow> evict_random_internal os now pick c = c"
  by (auto simp: evict_random_internal_def Let_def evict_loop_neg)

lemma evict_internal_full:
  assumes "is_order pick" "int (fmsize (entries c)) = capacity c" "entries c \<noteq> fmempty"
  obtains k e where "k = hd (pick (fmdom (entries c)))" "fmlookup (entries c) k = Some e"
    "evict_random_internal os now pick c =
       (if os \<and> \<not> now - stale_expiration e > 0 then c else remove k c)"
proof -
  let ?S = "fmdom (entries c)"
  from assms(1,3) have "pick ?S \<noteq> []"
    by (simp add: is_order_Nil)
  then obtain k ks where ks: "pick ?S = k # ks" by (cases "pick ?S") auto
  then have "k |\<in>| ?S" using is_orderD(2) [OF assms(1), of ?S] by auto
  then obtain e where e: "fmlookup (entries c) k = Some e" by (auto simp: fmdom_lookup_iff)
  show thesis
  proof (rule that)
    show "k = hd (pick ?S)" by (simp add: ks)
    show "fmlookup (entries c) k = Some e" by (rule e)
    show "evict_random_internal os now pick c =
       (if os \<and> \<not> now - stale_expiration e > 0 then c else remove k c)"
      using assms(2) e by (simp add: evict_random_internal_def ks evict_loop_neg remove_def)
  qed
qed

lemma evict_random_other:
  "int (fmsize (entries c)) \<noteq> capacity c \<Longrightarrow> evict_random now pick c = c"
  by (simp add: evict_random_def evict_internal_other)

lemma evict_random_full:
  assumes "is_order (pick 0)" "is_order (pick 1)"
    and "int (fmsize (entries c)) = capacity c" "entries c \<noteq> fmempty"
  shows "\<exists>k. k |\<in>| fmdom (entries c) \<and> evict_random now pick c = remove k c"
proof -
  obtain k e where k: "fmlookup (entries c) k = Some e"
    and ev: "evict_random_internal True now (pick 0) c =
       (if True \<and> \<not> now - stale_expiration e > 0 then c else remove k c)"
    using evict_internal_full [OF assms(1,3,4)] by metis
  show ?thesis
  proof (cases "now - stale_expiration e > 0")
    case True
    have "int (fmsize (entries (remove k c))) \<noteq> capacity (remove k c)"
      using fmlookup_in_dom [OF k] fmsize_pos [OF fmlookup_in_dom [OF k]] assms(3)
      by (simp add: remove_def fmsize_drop)
    with True ev show ?thesis
      using fmlookup_in_dom [OF k] by (auto simp: evict_random_def evict_internal_other)
  next
    case False
    obtain k' e' where "fmlookup (entries c) k' = Some e'"
      "evict_random_internal False now (pick 1) c = remove k' c"
      using evict_internal_full [OF assms(2,3,4)] by metis
    moreover have "k' |\<in>| fmdom (entries c)" using calculation(1) by (rule fmlookup_in_dom)
    ultimately show ?thesis using False ev by (auto simp: evict_random_def)
  qed
qed

lemma remove_simps [simp]:
  "capacity (remove k c) = capacity c" "ttl (remove k c) = ttl c"
  "stale_ttl (remove k c) = stale_ttl c" "entries (remove k c) = fmdrop k (entries c)"
  by (simp_all add: remove_def)

end
