(* ===== verification/Cache_Correct.thy ===== *)
theory Cache_Correct
  imports Cache
begin

text \<open>
  Correctness of the response cache: its size invariant, what an insertion and a lookup do to
  every key, the abstraction of the cache to the live answers it holds, and the provenance of
  answers, proved once for any answer store (locale \<open>answer_store\<close>) and interpreted on the
  model.
\<close>

section \<open>Insertion, case by case\<close>

definition stores :: "(nat \<Rightarrow> int) \<Rightarrow> string \<Rightarrow> cache \<Rightarrow> bool" where
  "stores clk s c \<longleftrightarrow>
     (case fmlookup (entries c) s of None \<Rightarrow> True | Some e \<Rightarrow> renewable clk e)"

definition stored_cache :: "(nat \<Rightarrow> int) \<Rightarrow> string \<Rightarrow> msg \<Rightarrow> cache \<Rightarrow> cache" where
  "stored_cache clk s m c =
     (if stores clk s c then c\<lparr>entries := fmupd s (new_elem clk m c) (entries c)\<rparr> else c)"

lemma insert_message_eq:
  "0 < capacity c \<Longrightarrow>
   insert_message clk pick s m c = evict_random (clk 5) pick (stored_cache clk s m c)"
  by (auto simp: insert_message_def stored_cache_def stores_def Let_def split: option.splits)

lemma insert_message_disabled [simp]: "capacity c \<le> 0 \<Longrightarrow> insert_message clk pick s m c = c"
  by (simp add: insert_message_def)

lemma stored_cache_simps [simp]:
  "capacity (stored_cache clk s m c) = capacity c"
  "stale_ttl (stored_cache clk s m c) = stale_ttl c"
  by (simp_all add: stored_cache_def)

definition orders_ok :: "(nat \<Rightarrow> string order_fun) \<Rightarrow> bool" where
  "orders_ok pick \<longleftrightarrow> is_order (pick 0) \<and> is_order (pick 1)"

text \<open>A concrete cache for the witnesses: one entry, for \<open>sample_q\<close>, with given expiry times.\<close>

definition sample_orders :: "nat \<Rightarrow> string order_fun" where
  "sample_orders = (\<lambda>_. sorted_list_of_fset)"

definition sample_elem :: "int \<Rightarrow> int \<Rightarrow> elem" where
  "sample_elem ex st = \<lparr>expiration = ex, e_msg = sample_m, stale_expiration = st,
                        hits = 0, stale_hits = 0, ttl_seconds = 0\<rparr>"

definition sample_cache :: "int \<Rightarrow> int \<Rightarrow> int \<Rightarrow> cache" where
  "sample_cache cap ex st =
     (new_cache cap 60 0 False 0)\<lparr>entries :=
        fmupd (cache_key sample_q False False) (sample_elem ex st) fmempty\<rparr>"

lemma sample_orders_ok [simp]: "orders_ok sample_orders"
  by (simp add: orders_ok_def sample_orders_def)

lemma sample_cache_simps [simp]:
  "capacity (sample_cache cap ex st) = cap"
  "fmlookup (entries (sample_cache cap ex st)) (cache_key sample_q False False)
     = Some (sample_elem ex st)"
  "fmsize (entries (sample_cache cap ex st)) = 1"
  by (simp_all add: sample_cache_def new_cache_def fmsize_upd)

lemma sample_elem_simps [simp]:
  "expiration (sample_elem ex st) = ex" "stale_expiration (sample_elem ex st) = st"
  "e_msg (sample_elem ex st) = sample_m"
  by (simp_all add: sample_elem_def)

lemma new_cache_simps [simp]:
  "capacity (new_cache cap t st fr tmax) = cap" "entries (new_cache cap t st fr tmax) = fmempty"
  "ttl (new_cache cap t st fr tmax) = seconds t" "stale_ttl (new_cache cap t st fr tmax) = seconds st"
  "ttl_from_resp (new_cache cap t st fr tmax) = fr"
  by (simp_all add: new_cache_def)

lemma stored_cache_size:
  "fmsize (entries (stored_cache clk s m c)) \<le> Suc (fmsize (entries c))"
  by (simp add: stored_cache_def fmsize_upd)

lemma insert_message_cases:
  assumes "0 < capacity c" "orders_ok pick"
  obtains (keep) "int (fmsize (entries (stored_cache clk s m c))) \<noteq> capacity c"
      "insert_message clk pick s m c = stored_cache clk s m c"
    | (evict) k where "int (fmsize (entries (stored_cache clk s m c))) = capacity c"
      "k |\<in>| fmdom (entries (stored_cache clk s m c))"
      "insert_message clk pick s m c = remove k (stored_cache clk s m c)"
proof (cases "int (fmsize (entries (stored_cache clk s m c))) = capacity c")
  case True
  with assms(1) have "entries (stored_cache clk s m c) \<noteq> fmempty" by auto
  then show thesis
    using evict_random_full [of pick "stored_cache clk s m c" "clk 5"] assms True evict
    by (auto simp: insert_message_eq orders_ok_def)
next
  case False
  then show thesis
    using evict_random_other [of "stored_cache clk s m c" "clk 5" pick] keep assms(1)
    by (simp add: insert_message_eq)
qed

lemma insert_message_capacity [simp]:
  assumes "orders_ok pick"
  shows "capacity (insert_message clk pick s m c) = capacity c"
proof (cases "0 < capacity c")
  case True
  then show ?thesis using assms by (cases rule: insert_message_cases [of c pick clk s m]) auto
qed simp

section \<open>Lookup, case by case\<close>

lemma search_Some:
  "0 < capacity c \<Longrightarrow> fmlookup (entries c) k = Some e \<Longrightarrow>
   search k c = (Some (e_msg e), expiration e, stale_expiration e, True)"
  by (simp add: search_def)

lemma search_None:
  "capacity c \<le> 0 \<or> fmlookup (entries c) k = None \<Longrightarrow>
   search k c = (None, zero_time, zero_time, False)"
  by (auto simp: search_def)

definition counted :: "bool \<Rightarrow> elem \<Rightarrow> elem" where
  "counted valid e =
     (if valid then e\<lparr>hits := hits e + 1\<rparr> else e\<lparr>stale_hits := stale_hits e + 1\<rparr>)"

lemma counted_simps [simp]:
  "expiration (counted v e) = expiration e" "e_msg (counted v e) = e_msg e"
  "stale_expiration (counted v e) = stale_expiration e"
  by (simp_all add: counted_def)

lemma count_hit_Some:
  "fmlookup (entries c) k = Some e \<Longrightarrow>
   count_hit k v c = Inr (c\<lparr>entries := fmupd k (counted v e) (entries c)\<rparr>)"
  by (simp add: count_hit_def counted_def)

lemma hit_absent:
  "capacity c \<le> 0 \<or> fmlookup (entries c) (cache_key q d t) = None \<Longrightarrow>
   hit clk q d t mid ks rs c = Inr (None, c)"
  by (simp add: hit_def search_None Let_def)

lemma hit_present:
  assumes "0 < capacity c" "fmlookup (entries c) (cache_key q d t) = Some e"
  shows "hit clk q d t mid ks rs c =
    (if clk 0 < expiration e \<or> rs
     then Inr (Some (hit_reply mid (e_msg e)),
               (if clk 1 > stale_expiration e
                then remove (cache_key q d t)
                       (c\<lparr>entries := fmupd (cache_key q d t) (counted (clk 0 < expiration e) e) (entries c)\<rparr>)
                else c\<lparr>entries := fmupd (cache_key q d t) (counted (clk 0 < expiration e) e) (entries c)\<rparr>))
     else Inr (None, if ks then c else remove (cache_key q d t) c))"
  using assms by (auto simp: hit_def search_Some count_hit_Some Let_def)

lemma hit_cases:
  obtains (absent) "capacity c \<le> 0 \<or> fmlookup (entries c) (cache_key q d t) = None"
      "hit clk q d t mid ks rs c = Inr (None, c)"
    | (present) e where "0 < capacity c" "fmlookup (entries c) (cache_key q d t) = Some e"
  using hit_absent by (metis linorder_not_less not_None_eq)

lemma hit_returns: "\<exists>r c'. hit clk q d t mid ks rs c = Inr (r, c')"
  by (cases rule: hit_cases [of c q d t clk mid ks rs]) (auto simp: hit_present)

section \<open>The size invariant\<close>

text \<open>
  An enabled cache holds strictly fewer entries than its capacity between operations, because
  an insertion that fills it evicts one entry; a disabled cache is empty.
\<close>

definition cache_ok :: "cache \<Rightarrow> bool" where
  "cache_ok c \<longleftrightarrow> (if 0 < capacity c then int (fmsize (entries c)) < capacity c
                    else entries c = fmempty)"

lemma cache_ok_new: "cache_ok (new_cache cap t st fr tmax)"
  by (simp add: cache_ok_def new_cache_def)

lemma fmsize_remove_le: "fmsize (fmdrop k m) \<le> fmsize m"
  by (simp add: fmsize_drop)

lemma cache_ok_remove: "cache_ok c \<Longrightarrow> cache_ok (remove k c)"
  using fmsize_remove_le [of k "entries c"] by (auto simp: cache_ok_def)

lemma cache_ok_insert:
  assumes "cache_ok c" "orders_ok pick"
  shows "cache_ok (insert_message clk pick s m c)"
proof (cases "0 < capacity c")
  case True
  let ?c = "stored_cache clk s m c"
  have le: "int (fmsize (entries ?c)) \<le> capacity c"
    using stored_cache_size [of clk s m c] assms(1) True by (simp add: cache_ok_def)
  from True assms(2) show ?thesis
  proof (cases rule: insert_message_cases [of c pick clk s m])
    case keep
    with le True show ?thesis by (simp add: cache_ok_def)
  next
    case (evict k)
    with fmsize_pos [OF evict(2)] le True show ?thesis by (simp add: cache_ok_def fmsize_drop)
  qed
qed (use assms in simp)

lemma cache_ok_hit:
  assumes "cache_ok c" "hit clk q d t mid ks rs c = Inr (r, c')"
  shows "cache_ok c'" and "capacity c' = capacity c"
  using assms
  by (cases rule: hit_cases [of c q d t clk mid ks rs];
      auto simp: hit_present cache_ok_def fmsize_upd fmsize_drop fmlookup_in_dom split: if_splits)+

text \<open>The operations a server performs on its cache, in the order it performs them.\<close>

datatype cache_op =
    Op_Insert "nat \<Rightarrow> int" "nat \<Rightarrow> string order_fun" string msg
  | Op_Hit "nat \<Rightarrow> int" question bool bool "16 word" bool bool
  | Op_Remove string

fun op_ok :: "cache_op \<Rightarrow> bool" where
  "op_ok (Op_Insert clk pick s m) = orders_ok pick"
| "op_ok _ = True"

fun apply_op :: "cache_op \<Rightarrow> cache \<Rightarrow> (msg option \<times> cache) go" where
  "apply_op (Op_Insert clk pick s m) c = Inr (None, insert_message clk pick s m c)"
| "apply_op (Op_Hit clk q d t mid ks rs) c = hit clk q d t mid ks rs c"
| "apply_op (Op_Remove s) c = Inr (None, remove s c)"

fun run_ops :: "cache_op list \<Rightarrow> cache \<Rightarrow> cache go" where
  "run_ops [] c = Inr c"
| "run_ops (x # xs) c = bind_go (apply_op x c) (\<lambda>(r, c'). run_ops xs c')"

lemma apply_op_ok:
  "cache_ok c \<Longrightarrow> op_ok x \<Longrightarrow> apply_op x c = Inr (r, c') \<Longrightarrow> cache_ok c' \<and> capacity c' = capacity c"
  by (cases x) (auto simp: cache_ok_insert cache_ok_remove dest: cache_ok_hit)

lemma apply_op_returns: "\<exists>r c'. apply_op x c = Inr (r, c')"
  by (cases x) (auto intro: hit_returns)

lemma run_ops_ok:
  "cache_ok c \<Longrightarrow> \<forall>x \<in> set xs. op_ok x \<Longrightarrow>
   returns (\<lambda>c'. cache_ok c' \<and> capacity c' = capacity c) (run_ops xs c)"
proof (induction xs arbitrary: c)
  case (Cons x xs)
  obtain r c' where x: "apply_op x c = Inr (r, c')"
    using apply_op_returns by blast
  with apply_op_ok [OF Cons.prems(1) _ x] Cons.prems(2) Cons.IH [of c'] show ?case by simp
qed simp

text \<open>
  C22. A cache created with a positive capacity never holds that many entries: after any sequence
  of insertions, lookups and removals, in any order and with any eviction choices, no operation
  has panicked and the cache holds fewer entries than its capacity.
\<close>

theorem cache_size_bound:
  assumes "0 < cap" "\<forall>x \<in> set xs. op_ok x"
  shows "returns (\<lambda>c. int (cache_size c) < cap \<and> cache_capacity c = cap)
           (run_ops xs (new_cache cap t st fr tmax))"
proof -
  have "returns (\<lambda>c. cache_ok c \<and> capacity c = capacity (new_cache cap t st fr tmax))
      (run_ops xs (new_cache cap t st fr tmax))"
    using run_ops_ok [OF cache_ok_new assms(2)] .
  then show ?thesis
    by (rule returns_mono)
      (use assms(1) in \<open>auto simp: cache_ok_def new_cache_def cache_size_def cache_capacity_def\<close>)
qed

theorem cache_size_bound_witness:
  "returns (\<lambda>c. int (cache_size c) < 1 \<and> cache_capacity c = 1)
     (run_ops [Op_Insert (\<lambda>_. 0) sample_orders ''k'' sample_m,
               Op_Hit (\<lambda>_. 5) sample_q False False 7 True False] (new_cache 1 60 0 False 0))"
  by (rule cache_size_bound) simp_all

section \<open>The live answers: an abstract view\<close>

text \<open>
  What the cache promises is a partial map from keys to answers that are still within their
  time to live. A lookup that may not return stale answers reads this map, and changes it at
  most by forgetting the key it was asked for; an insertion changes it at the key inserted and
  forgets at most one more key.
\<close>

definition live :: "int \<Rightarrow> cache \<Rightarrow> string \<Rightarrow> msg option" where
  "live now c k =
     (if 0 < capacity c
      then (case fmlookup (entries c) k of
              Some e \<Rightarrow> if now < expiration e then Some (e_msg e) else None
            | None \<Rightarrow> None)
      else None)"

lemma hit_live:
  "\<exists>c' dropped.
     hit clk q d t mid ks False c
       = Inr (map_option (hit_reply mid) (live (clk 0) c (cache_key q d t)), c') \<and>
     (\<forall>now k. live now c' k
        = (if dropped \<and> k = cache_key q d t then None else live now c k))"
proof (cases rule: hit_cases [of c q d t clk mid ks False])
  case absent
  then show ?thesis by (intro exI [of _ c] exI [of _ False]) (auto simp: live_def)
next
  case (present e)
  let ?key = "cache_key q d t" and ?v = "clk 0 < expiration e"
  let ?c1 = "c\<lparr>entries := fmupd ?key (counted ?v e) (entries c)\<rparr>"
  show ?thesis
  proof (cases "?v \<and> clk 1 > stale_expiration e \<or> \<not> ?v \<and> \<not> ks")
    case True
    then show ?thesis using present
      by (intro exI [of _ "if ?v then remove ?key ?c1 else remove ?key c"] exI [of _ True])
        (auto simp: hit_present live_def)
  next
    case False
    then show ?thesis using present
      by (intro exI [of _ "if ?v then ?c1 else c"] exI [of _ False])
        (auto simp: hit_present live_def split: option.splits)
  qed
qed

text \<open>
  C20. Functional refinement of \<open>Hit\<close>: with stale answers not allowed, the result is exactly the
  live answer of the question's key, with the request's identifier, compression on and the
  truncation flag off; every other key keeps its answer, and the key asked for keeps it too
  unless \<open>Hit\<close> dropped the entry.
\<close>

theorem hit_refines_live:
  "\<exists>c' dropped.
     hit clk q d t mid ks False c
       = Inr (map_option (hit_reply mid) (live (clk 0) c (cache_key q d t)), c') \<and>
     (\<forall>now k. live now c' k
        = (if dropped \<and> k = cache_key q d t then None else live now c k))"
  by (rule hit_live)

text \<open>
  C21. Functional refinement of \<open>InsertMessage\<close>: the message becomes the live answer of its key,
  until its expiry, when the key was absent or its entry had expired within its stale period;
  otherwise the old entry stays. Exactly when the cache has become full by that, one key is
  forgotten, which is one of those then present, possibly the one just inserted; no other answer
  changes.
\<close>

theorem insert_refines_live:
  assumes "0 < capacity c" "orders_ok pick"
  shows "\<exists>victim.
     (victim = None \<longleftrightarrow> int (fmsize (entries (stored_cache clk s m c))) \<noteq> capacity c) \<and>
     set_option victim \<subseteq> insert s (fset (fmdom (entries c))) \<and>
     (\<forall>now k. live now (insert_message clk pick s m c) k
        = (if victim = Some k then None
           else if k = s \<and> stores clk s c
           then (if now < expiration (new_elem clk m c) then Some m else None)
           else live now c k))"
  using assms
proof (cases rule: insert_message_cases [of c pick clk s m])
  case keep
  then show ?thesis using assms(1)
    by (intro exI [of _ None]) (auto simp: live_def stored_cache_def new_elem_def Let_def)
next
  case (evict k)
  then have "k \<in> insert s (fset (fmdom (entries c)))"
    by (auto simp: stored_cache_def split: if_splits)
  with evict show ?thesis using assms(1)
    by (intro exI [of _ "Some k"]) (auto simp: live_def stored_cache_def new_elem_def Let_def)
qed

text \<open>At capacity one the victim is the message just inserted.\<close>

theorem insert_refines_live_witness:
  "\<exists>victim. victim = Some ''k'' \<and>
     (\<forall>now k. live now (insert_message (\<lambda>_. 0) sample_orders ''k'' sample_m (new_cache 1 60 0 False 0)) k
        = (if victim = Some k then None
           else if k = ''k'' \<and> stores (\<lambda>_. 0) ''k'' (new_cache 1 60 0 False 0)
           then (if now < expiration (new_elem (\<lambda>_. 0) sample_m (new_cache 1 60 0 False 0))
                 then Some sample_m else None)
           else live now (new_cache 1 60 0 False 0) k))"
proof -
  let ?c = "new_cache 1 60 0 False 0"
  have "int (fmsize (entries (stored_cache (\<lambda>_. 0) ''k'' sample_m ?c))) = 1" "fmdom (entries ?c) = {||}"
    by (simp_all add: stored_cache_def stores_def new_cache_def fmsize_def fcard_finsert_if)
  with insert_refines_live [of ?c sample_orders "\<lambda>_. 0" "''k''" sample_m] show ?thesis
    by auto
qed

section \<open>Insertion and lookup together\<close>

text \<open>
  C25. Round trip: a message inserted under the key of a question, into an enabled cache that
  holds no entry for it and has room, is what \<open>Hit\<close> returns for that question at any time before
  the expiry computed at insertion, whatever the stale settings.
\<close>

theorem insert_then_hit:
  assumes "fmlookup (entries c) (cache_key q d t) = None"
    and "int (fmsize (entries c)) + 1 < capacity c"
    and "clk' 0 < expiration (new_elem clk m c)"
  shows "\<exists>c'. hit clk' q d t mid ks rs (insert_message clk pick (cache_key q d t) m c)
               = Inr (Some (hit_reply mid m), c')"
proof -
  let ?k = "cache_key q d t"
  let ?c = "stored_cache clk ?k m c"
  have cap: "0 < capacity c" using assms(2) by simp
  have "int (fmsize (entries ?c)) \<noteq> capacity ?c"
    using assms(2) stored_cache_size [of clk ?k m c] by simp
  then have "insert_message clk pick ?k m c = ?c"
    using cap by (simp add: insert_message_eq evict_random_other)
  moreover have "fmlookup (entries ?c) ?k = Some (new_elem clk m c)"
    using assms(1) by (simp add: stored_cache_def stores_def)
  moreover have "e_msg (new_elem clk m c) = m" by (simp add: new_elem_def Let_def)
  ultimately show ?thesis using cap assms(3) by (simp add: hit_present)
qed

theorem insert_then_hit_witness:
  "\<exists>c'. hit (\<lambda>_. 5) sample_q False False 7 True False
          (insert_message (\<lambda>_. 0) sample_orders (cache_key sample_q False False) sample_m
             (new_cache 2 60 0 False 0)) = Inr (Some (hit_reply 7 sample_m), c')"
  by (rule insert_then_hit) (simp_all add: new_elem_def seconds_def Let_def signed_take_bit_int_eq_self)

text \<open>
  With stale answers not allowed, \<open>Hit\<close> never returns an answer whose time to live has
  passed: if it returns one, the cache holds it under the question's key and it has not expired.
\<close>

lemma hit_only_fresh:
  assumes "hit clk q d t mid ks False c = Inr (Some r, c')"
  shows "\<exists>e. fmlookup (entries c) (cache_key q d t) = Some e \<and> clk 0 < expiration e
             \<and> r = hit_reply mid (e_msg e)"
  using assms by (cases rule: hit_cases [of c q d t clk mid ks False])
    (auto simp: hit_present split: if_splits)

text \<open>
  An entry that is still valid is not replaced by an insertion under its key: the cache stays
  exactly as it is, so an entry's time to live is not extended by repeated insertions.
\<close>

lemma insert_keeps_valid:
  assumes "cache_ok c" "fmlookup (entries c) s = Some e" "clk 0 \<le> expiration e"
  shows "insert_message clk pick s m c = c"
proof (cases "0 < capacity c")
  case True
  with assms have "int (fmsize (entries c)) \<noteq> capacity c" by (simp add: cache_ok_def)
  moreover have "stored_cache clk s m c = c"
    using assms by (simp add: stored_cache_def stores_def renewable_def)
  ultimately show ?thesis using True by (simp add: insert_message_eq evict_random_other)
qed simp

section \<open>Time to live\<close>

lemma seconds_uint [simp]: "seconds (uint w) = uint w * 1000000000" for w :: "32 word"
proof -
  have "- (2 ^ 63) \<le> uint w * 1000000000" by (rule order_trans [of _ 0]) simp_all
  moreover have "uint w * 1000000000 < 2 ^ 63" using uint_bounded [of w] by simp
  ultimately show ?thesis unfolding seconds_def by (rule signed_take_bit_int_eq_self)
qed

lemma clamp_eq: "lo \<le> hi \<Longrightarrow> (if v < lo then lo else if v > hi then hi else v) = max lo (min hi v)"
  for v :: "'a::linorder"
  by (auto simp: max_def min_def)

definition lowest_answer_ttl :: "msg \<Rightarrow> 32 word" where
  "lowest_answer_ttl m = (if m_answer m = [] then 0 else Min (rr_ttl ` set (m_answer m)))"

lemma get_lowest_ttl_clamp:
  assumes "lo \<le> hi"
  shows "get_lowest_ttl m lo hi = max lo (min hi (lowest_answer_ttl m))"
proof -
  have "get_lowest_ttl m lo hi
      = (let v = lowest_answer_ttl m in if v < lo then lo else if v > hi then hi else v)"
    unfolding get_lowest_ttl_def lowest_answer_ttl_def Let_def
    by (cases "m_answer m") (simp_all only: list.map length_0_conv set_map, simp_all)
  then show ?thesis by (simp only: Let_def clamp_eq [OF assms])
qed

text \<open>
  C24. With the time to live taken from responses, an entry lives for the lowest TTL of its
  answers clamped to the configured bounds: never less than the minimum, never more than the
  maximum, exactly the lowest TTL where that is between them; no 64-bit product overflows.
\<close>

theorem ttl_from_response_bounds:
  assumes "ttl_from_resp c" "ttl_min_seconds c \<le> ttl_max_seconds c"
  shows "expiration (new_elem clk m c) - clk 3
           = 1000000000 * uint (max (ttl_min_seconds c)
               (min (ttl_max_seconds c) (lowest_answer_ttl m))) \<and>
         clk 3 + 1000000000 * uint (ttl_min_seconds c) \<le> expiration (new_elem clk m c) \<and>
         expiration (new_elem clk m c) \<le> clk 3 + 1000000000 * uint (ttl_max_seconds c)"
proof -
  let ?v = "max (ttl_min_seconds c) (min (ttl_max_seconds c) (lowest_answer_ttl m))"
  have eq: "expiration (new_elem clk m c) = clk 3 + 1000000000 * uint ?v"
    using assms(1) by (simp only: new_elem_def get_lowest_ttl_clamp [OF assms(2)] Let_def
        elem.simps seconds_uint if_True mult.commute)
  have "ttl_min_seconds c \<le> ?v" "?v \<le> ttl_max_seconds c" using assms(2) by auto
  then have "uint (ttl_min_seconds c) \<le> uint ?v" "uint ?v \<le> uint (ttl_max_seconds c)"
    by (simp_all add: word_le_def)
  then show ?thesis by (simp add: eq)
qed

theorem ttl_from_response_bounds_witness:
  "expiration (new_elem (\<lambda>_. 0) sample_m (new_cache 2 60 0 True 90)) - 0
     = 1000000000 * uint (max (ttl_min_seconds (new_cache 2 60 0 True 90))
         (min (ttl_max_seconds (new_cache 2 60 0 True 90)) (lowest_answer_ttl sample_m))) \<and>
   0 + 1000000000 * uint (ttl_min_seconds (new_cache 2 60 0 True 90))
     \<le> expiration (new_elem (\<lambda>_. 0) sample_m (new_cache 2 60 0 True 90)) \<and>
   expiration (new_elem (\<lambda>_. 0) sample_m (new_cache 2 60 0 True 90))
     \<le> 0 + 1000000000 * uint (ttl_max_seconds (new_cache 2 60 0 True 90))"
  by (rule ttl_from_response_bounds) (simp_all add: new_cache_def)

section \<open>Keys\<close>

lemma byte_char_inj: "byte_char a = byte_char b \<longleftrightarrow> a = b"
proof
  assume "byte_char a = byte_char b"
  then have "of_char (byte_char a) = (of_char (byte_char b) :: nat)" by simp
  moreover have "unat a < 256" "unat b < 256"
    using unsigned_less [of a, where ?'a = nat] unsigned_less [of b, where ?'a = nat] by simp_all
  ultimately show "a = b" by (simp add: byte_char_def word_unat_eq_iff)
qed simp

lemma pack_uint16_inj: "pack_uint16 a = pack_uint16 b \<longleftrightarrow> a = b"
proof
  assume "pack_uint16 a = pack_uint16 b"
  then have hi: "ucast (drop_bit 8 a) = (ucast (drop_bit 8 b) :: byte)"
    and lo: "ucast a = (ucast b :: byte)"
    by (simp_all add: pack_uint16_def byte_char_inj)
  show "a = b"
  proof (rule bit_word_eqI)
    fix n assume n: "n < LENGTH(16)"
    show "bit a n = bit b n"
    proof (cases "n < 8")
      case True
      with arg_cong [OF lo, of "\<lambda>x. bit x n"] show ?thesis by (simp add: bit_simps)
    next
      case False
      with n have "n - 8 < 8" by simp
      with False arg_cong [OF hi, of "\<lambda>x. bit x (n - 8)"] show ?thesis by (simp add: bit_simps)
    qed
  qed
qed simp

text \<open>
  What follows the name in a key: the two bytes of the type and the marks for DNSSEC and TCP.
\<close>

definition key_marks :: "bool \<Rightarrow> bool \<Rightarrow> string" where
  "key_marks dnssec tcp = (if dnssec then [CHR 0xFF] else []) @ (if tcp then [CHR 0xFE] else [])"

lemma cache_key_eq:
  "cache_key q d t = q_name q @ pack_uint16 (q_type q) @ key_marks d t @ sha1_empty"
  by (simp add: cache_key_def key_marks_def)

lemma key_marks_inj: "key_marks d t = key_marks d' t' \<longleftrightarrow> d = d' \<and> t = t'"
  by (auto simp: key_marks_def split: if_splits)

text \<open>
  The marks can only be confused with a type whose high byte is a dot or 0xFF; the only
  types that have one of these are unassigned or for private use.
\<close>

lemma marked_name_inj:
  assumes "n1 @ [h1, l1] @ key_marks d1 t1 = n2 @ [h2, l2] @ key_marks d2 t2"
    and "has_suffix n1 ''.''" "has_suffix n2 ''.''"
    and "h1 \<notin> {CHR ''.'', CHR 0xFF}" "h2 \<notin> {CHR ''.'', CHR 0xFF}"
  shows "n1 = n2 \<and> h1 = h2 \<and> l1 = l2 \<and> d1 = d2 \<and> t1 = t2"
proof -
  obtain u1 where "n1 = u1 @ ''.''" using assms(2) by (auto simp: has_suffix_iff)
  then have n1: "rev n1 = CHR ''.'' # rev u1" by simp
  obtain u2 where "n2 = u2 @ ''.''" using assms(3) by (auto simp: has_suffix_iff)
  then have n2: "rev n2 = CHR ''.'' # rev u2" by simp
  have "rev (n1 @ [h1, l1] @ key_marks d1 t1) = rev (n2 @ [h2, l2] @ key_marks d2 t2)"
    by (simp only: assms(1))
  then have "rev n1 = rev n2 \<and> h1 = h2 \<and> l1 = l2 \<and> d1 = d2 \<and> t1 = t2"
    using assms(4,5) by (auto simp: key_marks_def n1 n2 split: if_splits)
  then show ?thesis by simp
qed

definition type_in_use :: "question \<Rightarrow> bool" where
  "type_in_use q \<longleftrightarrow> drop_bit 8 (q_type q) \<notin> {0x2E, 0xFF}"

lemma high_byte:
  assumes "type_in_use q"
  shows "byte_char (ucast (drop_bit 8 (q_type q))) \<notin> {CHR ''.'', CHR 0xFF}"
proof -
  let ?h = "drop_bit 8 (q_type q)"
  have "unat (q_type q) < 65536" using unsigned_less [of "q_type q", where ?'a = nat] by simp
  then have "unat ?h < 256" by (simp add: drop_bit_eq_div unat_div)
  then have h: "unat (ucast ?h :: byte) = unat ?h"
    by (simp add: unsigned_ucast_eq unsigned_take_bit_eq take_bit_eq_mod)
  have "unat ?h \<noteq> 46 \<and> unat ?h \<noteq> 255"
    using assms by (simp add: type_in_use_def word_unat_eq_iff)
  with h have "of_char (byte_char (ucast ?h)) \<noteq> (46::nat) \<and> of_char (byte_char (ucast ?h)) \<noteq> (255::nat)"
    using \<open>unat ?h < 256\<close> by (simp add: byte_char_def)
  then show ?thesis by auto
qed

lemma cache_key_inj:
  assumes "cache_key q d t = cache_key q' d' t'"
    and "has_suffix (q_name q) ''.''" "has_suffix (q_name q') ''.''"
    and "type_in_use q" "type_in_use q'"
  shows "q_name q = q_name q' \<and> q_type q = q_type q' \<and> d = d' \<and> t = t'"
proof -
  let ?hi = "\<lambda>q. byte_char (ucast (drop_bit 8 (q_type q)))" and ?lo = "\<lambda>q. byte_char (ucast (q_type q))"
  have "q_name q @ [?hi q, ?lo q] @ key_marks d t = q_name q' @ [?hi q', ?lo q'] @ key_marks d' t'"
    using assms(1) by (simp add: cache_key_eq pack_uint16_def)
  from marked_name_inj [OF this assms(2,3) high_byte [OF assms(4)] high_byte [OF assms(5)]]
  show ?thesis using pack_uint16_inj [of "q_type q" "q_type q'"] by (simp add: pack_uint16_def)
qed

text \<open>
  Keys do not collide: two questions about absolute names, of types whose high byte is neither
  0x2E nor 0xFF, get the same key exactly when they agree in name, type, DNSSEC flag and transport.
\<close>

lemma cache_key_injective:
  assumes "has_suffix (q_name q) ''.''" "has_suffix (q_name q') ''.''"
    and "type_in_use q" "type_in_use q'"
  shows "cache_key q d t = cache_key q' d' t'
    \<longleftrightarrow> q_name q = q_name q' \<and> q_type q = q_type q' \<and> d = d' \<and> t = t'"
  using cache_key_inj [OF _ assms] by (auto simp: cache_key_eq)

text \<open>
  The key of a record set does not see the port of its SRV records: the weight is packed
  twice in its place, so two SRV records that differ only in port share a key.
\<close>

lemma key_rrset_ignores_srv_port:
  "key_rrset [r\<lparr>rr_data := RD_SRV prio weight port target\<rparr>]
     = key_rrset [r\<lparr>rr_data := RD_SRV prio weight port' target\<rparr>]"
  by (simp add: key_rrset_def rr_key_bytes_def)

section \<open>Stale entries\<close>

lemma insert_new_room:
  assumes "fmlookup (entries c) k = None" "int (fmsize (entries c)) + 1 < capacity c"
  shows "insert_message clk pick k m c = c\<lparr>entries := fmupd k (new_elem clk m c) (entries c)\<rparr>"
proof -
  have "stored_cache clk k m c = c\<lparr>entries := fmupd k (new_elem clk m c) (entries c)\<rparr>"
    using assms(1) by (simp add: stored_cache_def stores_def)
  moreover have "int (fmsize (entries (stored_cache clk k m c))) \<noteq> capacity (stored_cache clk k m c)"
    using assms(2) stored_cache_size [of clk k m c] by simp
  ultimately show ?thesis using assms(2) by (simp add: insert_message_eq evict_random_other)
qed

lemma new_elem_simps [simp]:
  "e_msg (new_elem clk m c) = m"
  "stale_expiration (new_elem clk m c) = clk 4 + stale_ttl c"
  "\<not> ttl_from_resp c \<Longrightarrow> expiration (new_elem clk m c) = clk 2 + ttl c"
  by (simp_all add: new_elem_def Let_def)

text \<open>
  With the default stale period of zero seconds every entry serves a single answer: a lookup
  within the entry's time to live returns the message, and removes the entry, because its stale
  expiry is the moment it was inserted.
\<close>

lemma zero_stale_period_single_hit:
  assumes "fmlookup (entries c) (cache_key q d t) = None"
    and "int (fmsize (entries c)) + 1 < capacity c"
    and "stale_ttl c = 0"
    and "clk' 0 < expiration (new_elem clk m c)" "clk 4 < clk' 1"
  shows "\<exists>c'. hit clk' q d t mid ks rs (insert_message clk pick (cache_key q d t) m c)
               = Inr (Some (hit_reply mid m), c') \<and>
             fmlookup (entries c') (cache_key q d t) = None"
proof -
  have "0 < capacity c" using assms(2) by simp
  then show ?thesis
    using assms(3-5) by (simp add: insert_new_room [OF assms(1,2)] hit_present)
qed

text \<open>
  A lookup that accepts stale answers gets one last answer from an entry whose stale period
  is over too: the entry is served and only then removed.
\<close>

lemma expired_stale_served_once:
  assumes "0 < capacity c" "fmlookup (entries c) (cache_key q d t) = Some e"
    and "expiration e \<le> clk 0" "stale_expiration e < clk 1"
  shows "\<exists>c'. hit clk q d t mid ks True c = Inr (Some (hit_reply mid (e_msg e)), c') \<and>
             fmlookup (entries c') (cache_key q d t) = None"
  using assms by (simp add: hit_present)

text \<open>
  C26. An entry whose time to live and stale period are both over blocks its key: as long as only
  lookups come that keep stale entries and do not accept them (the first lookup of a request, and
  the only one in the reverse zones), they find nothing and leave it in place, and a new answer for
  the same question is not inserted. Only a lookup that accepts stale answers ends this: it gets the
  dead answer and removes the entry.
\<close>

theorem dead_entry_blocks_key:
  assumes "cache_ok c" "0 < capacity c" "fmlookup (entries c) (cache_key q d t) = Some e"
    and "expiration e \<le> clk 0" "stale_expiration e \<le> clk' 1"
    and "expiration e \<le> clk'' 0" "stale_expiration e < clk'' 1"
  shows "hit clk q d t mid True False c = Inr (None, c) \<and>
         insert_message clk' pick (cache_key q d t) m c = c \<and>
         (\<exists>c'. hit clk'' q d t mid True True c = Inr (Some (hit_reply mid (e_msg e)), c') \<and>
               fmlookup (entries c') (cache_key q d t) = None)"
proof (intro conjI)
  show "hit clk q d t mid True False c = Inr (None, c)"
    using assms by (simp add: hit_present)
  have "stored_cache clk' (cache_key q d t) m c = c"
    using assms by (simp add: stored_cache_def stores_def renewable_def)
  then show "insert_message clk' pick (cache_key q d t) m c = c"
    using assms(1,2) by (simp add: insert_message_eq evict_random_other cache_ok_def)
qed (rule expired_stale_served_once [OF assms(2,3,6,7)])

theorem dead_entry_blocks_key_witness:
  "hit (\<lambda>_. 30) sample_q False False 7 True False (sample_cache 2 9 20) = Inr (None, sample_cache 2 9 20) \<and>
   insert_message (\<lambda>_. 31) sample_orders (cache_key sample_q False False) new_msg (sample_cache 2 9 20)
     = sample_cache 2 9 20 \<and>
   (\<exists>c'. hit (\<lambda>_. 32) sample_q False False 7 True True (sample_cache 2 9 20)
       = Inr (Some (hit_reply 7 (e_msg (sample_elem 9 20))), c') \<and>
     fmlookup (entries c') (cache_key sample_q False False) = None)"
  by (rule dead_entry_blocks_key [of _ _ _ _ "sample_elem 9 20"]) (simp_all add: cache_ok_def)

text \<open>
  Serving a stale answer within the stale period keeps the entry: only its counter of stale
  hits changes, so the same answer can be served again until the stale period ends.
\<close>

lemma stale_answer_keeps_entry:
  assumes "0 < capacity c" "fmlookup (entries c) (cache_key q d t) = Some e"
    and "expiration e \<le> clk 0" "clk 1 \<le> stale_expiration e"
  shows "hit clk q d t mid ks True c =
           Inr (Some (hit_reply mid (e_msg e)),
                c\<lparr>entries := fmupd (cache_key q d t) (e\<lparr>stale_hits := stale_hits e + 1\<rparr>) (entries c)\<rparr>)"
  using assms by (simp add: hit_present counted_def)

text \<open>
  A cache of capacity one caches nothing: the entry just inserted fills the cache and is
  evicted at once.
\<close>

lemma capacity_one_caches_nothing:
  assumes "cache_ok c" "capacity c = 1" "orders_ok pick"
  shows "entries (insert_message clk pick s m c) = fmempty"
proof -
  have "cache_ok (insert_message clk pick s m c)" by (rule cache_ok_insert [OF assms(1,3)])
  then have "fmsize (entries (insert_message clk pick s m c)) = 0"
    using assms(2,3) by (simp add: cache_ok_def)
  then show ?thesis by (simp add: fmsize_def)
qed

section \<open>Where answers come from\<close>

text \<open>
  The contract of a store of answers: every operation returns; after an operation a key holds
  what it held before or what the operation puts there; an answer is an adaptation of what the
  store holds under the key the operation asks for. Whatever the store evicts or expires, an
  answer then goes back to an earlier put under the same key.
\<close>

locale answer_store =
  fixes stored :: "'c \<Rightarrow> 'k \<Rightarrow> 'm option"
    and step :: "'o \<Rightarrow> 'c \<Rightarrow> ('m option \<times> 'c) go"
    and puts :: "'o \<Rightarrow> ('k \<times> 'm) option"
    and asks :: "'o \<Rightarrow> ('k \<times> ('m \<Rightarrow> 'm)) option"
    and ok :: "'o \<Rightarrow> bool"
  assumes step_returns: "\<exists>r c'. step x c = Inr (r, c')"
    and step_stored: "step x c = Inr (r, c') \<Longrightarrow> ok x \<Longrightarrow> stored c' k = Some m \<Longrightarrow>
          stored c k = Some m \<or> puts x = Some (k, m)"
    and step_answer: "step x c = Inr (Some m, c') \<Longrightarrow>
          \<exists>k f m0. asks x = Some (k, f) \<and> stored c k = Some m0 \<and> m = f m0"
begin

primrec run :: "'o list \<Rightarrow> 'c \<Rightarrow> 'c go" where
  "run [] c = Inr c"
| "run (x # xs) c = bind_go (step x c) (\<lambda>(r, c'). run xs c')"

lemma run_stored:
  "run xs c = Inr c' \<Longrightarrow> \<forall>x \<in> set xs. ok x \<Longrightarrow> stored c' k = Some m \<Longrightarrow>
   stored c k = Some m \<or> (\<exists>x \<in> set xs. puts x = Some (k, m))"
proof (induction xs arbitrary: c)
  case (Cons x xs)
  obtain r c1 where x: "step x c = Inr (r, c1)" using step_returns by blast
  with Cons have "stored c1 k = Some m \<or> (\<exists>x \<in> set xs. puts x = Some (k, m))" by simp
  with step_stored [OF x] Cons.prems(2) show ?case by auto
qed simp

lemma answer_origin:
  assumes "run xs c = Inr c1" "\<forall>x \<in> set xs. ok x" "step y c1 = Inr (Some m, c2)"
    and "\<And>k. stored c k = None"
  shows "\<exists>k f m0 x. asks y = Some (k, f) \<and> x \<in> set xs \<and> puts x = Some (k, m0) \<and> m = f m0"
proof -
  obtain k f m0 where y: "asks y = Some (k, f)" "stored c1 k = Some m0" "m = f m0"
    using step_answer [OF assms(3)] by blast
  with run_stored [OF assms(1,2) y(2)] assms(4) show ?thesis by auto
qed

end

fun op_puts :: "cache_op \<Rightarrow> (string \<times> msg) option" where
  "op_puts (Op_Insert clk pick s m) = Some (s, m)"
| "op_puts _ = None"

fun op_asks :: "cache_op \<Rightarrow> (string \<times> (msg \<Rightarrow> msg)) option" where
  "op_asks (Op_Hit clk q d t mid ks rs) = Some (cache_key q d t, hit_reply mid)"
| "op_asks _ = None"

definition stored_msg :: "cache \<Rightarrow> string \<Rightarrow> msg option" where
  "stored_msg c k = map_option e_msg (fmlookup (entries c) k)"

lemma insert_stored:
  assumes "orders_ok pick" "stored_msg (insert_message clk pick s m c) k = Some x"
  shows "stored_msg c k = Some x \<or> (s = k \<and> m = x)"
proof (cases "0 < capacity c")
  case True
  from True assms(1) show ?thesis
    by (cases rule: insert_message_cases [of c pick clk s m])
      (use assms(2) in \<open>auto simp: stored_msg_def stored_cache_def split: if_splits\<close>)
qed (use assms in simp)

lemma hit_stored:
  assumes "hit clk q d t mid ks rs c = Inr (r, c')" "stored_msg c' k = Some x"
  shows "stored_msg c k = Some x"
  using assms by (cases rule: hit_cases [of c q d t clk mid ks rs])
    (auto simp: hit_present stored_msg_def split: if_splits)

lemma remove_stored: "stored_msg (remove s c) k = Some x \<Longrightarrow> stored_msg c k = Some x"
  by (auto simp: stored_msg_def split: if_splits)

lemma hit_answer:
  assumes "hit clk q d t mid ks rs c = Inr (Some r, c')"
  shows "\<exists>m0. stored_msg c (cache_key q d t) = Some m0 \<and> r = hit_reply mid m0"
  using assms by (cases rule: hit_cases [of c q d t clk mid ks rs])
    (auto simp: hit_present stored_msg_def split: if_splits)

interpretation rcache: answer_store stored_msg apply_op op_puts op_asks op_ok
proof (unfold_locales, goal_cases)
  case (1 x c)
  show ?case by (rule apply_op_returns)
next
  case (2 x c r c' k m)
  then show ?case
    by (cases x) (auto dest: insert_stored hit_stored remove_stored)
next
  case (3 x c m c')
  then show ?case by (cases x) (auto dest: hit_answer)
qed

lemma rcache_run: "rcache.run xs c = run_ops xs c"
  by (induction xs arbitrary: c) auto

text \<open>
  C23. Provenance: after any sequence of operations on a new cache, an answer that a lookup
  returns, fresh or stale, is a message that was inserted earlier under the key of the question
  asked, with only its identifier, compression and truncation flags rewritten.
\<close>

theorem cached_answer_provenance:
  assumes "run_ops xs (new_cache cap ttl0 st fr tmax) = Inr c1" "\<forall>x \<in> set xs. op_ok x"
    and "hit clk q d t mid ks rs c1 = Inr (Some r, c2)"
  shows "\<exists>iclk pick m0. Op_Insert iclk pick (cache_key q d t) m0 \<in> set xs \<and> r = hit_reply mid m0"
proof -
  have "\<exists>k f m0 x. op_asks (Op_Hit clk q d t mid ks rs) = Some (k, f) \<and> x \<in> set xs
          \<and> op_puts x = Some (k, m0) \<and> r = f m0"
    using assms(1,2) by (rule rcache.answer_origin [unfolded rcache_run])
      (use assms(3) in \<open>auto simp: stored_msg_def new_cache_def\<close>)
  then obtain m0 x where x: "x \<in> set xs" "op_puts x = Some (cache_key q d t, m0)" "r = hit_reply mid m0"
    by auto
  from x(2) obtain iclk pick where "x = Op_Insert iclk pick (cache_key q d t) m0"
    by (cases x) auto
  with x show ?thesis by blast
qed

theorem cached_answer_provenance_witness:
  "\<exists>iclk pick m0.
     Op_Insert iclk pick (cache_key sample_q False False) m0
       \<in> set [Op_Insert (\<lambda>_. 0) sample_orders (cache_key sample_q False False) sample_m] \<and>
     hit_reply 7 sample_m = hit_reply 7 m0"
proof -
  let ?c = "insert_message (\<lambda>_. 0) sample_orders (cache_key sample_q False False) sample_m
              (new_cache 2 60 0 False 0)"
  have c: "?c = (new_cache 2 60 0 False 0)\<lparr>entries := fmupd (cache_key sample_q False False)
      (new_elem (\<lambda>_. 0) sample_m (new_cache 2 60 0 False 0)) fmempty\<rparr>"
    by (simp add: insert_new_room)
  have run: "run_ops [Op_Insert (\<lambda>_. 0) sample_orders (cache_key sample_q False False) sample_m]
      (new_cache 2 60 0 False 0) = Inr ?c"
    by simp
  obtain c2 where "hit (\<lambda>_. 5) sample_q False False 7 True False ?c = Inr (Some (hit_reply 7 sample_m), c2)"
    by (simp add: c hit_present seconds_def signed_take_bit_int_eq_self)
  from cached_answer_provenance [OF run _ this] show ?thesis by simp
qed

end
