(* ===== verification/Cache_Concurrent.thy ===== *)
theory Cache_Concurrent
  imports Cache_Correct
begin

text \<open>
  The critical sections of a lookup. \<open>Hit\<close> (\<open>cache/hit.go\<close>) gives up the lock between finding
  an entry, counting the hit and removing the entry, so that other goroutines may change the cache
  in between. Every other operation of the cache is one critical section. Theory \<open>Server_Concurrent\<close>
  builds the sections of a request on these, and \<open>Live_Server\<close> interleaves requests.
\<close>

section \<open>Goroutines and critical sections\<close>

text \<open>
  Where a goroutine inside \<open>Hit\<close> stands: not started, holding a copy of the entry it found
  (key, prepared reply, validity, stale expiry), having counted the hit, about to remove an
  expired entry, or returned.
\<close>

datatype pc =
    Idle
  | Found string msg bool int
  | Counted string msg int
  | Expired string
  | Done "msg option"

text \<open>
  One critical section of a lookup. From \<open>Idle\<close> it is \<open>Search\<close> with the decision that follows,
  then the counting of the hit, then the removal.
\<close>

fun hit_step ::
  "(nat \<Rightarrow> int) \<Rightarrow> question \<Rightarrow> bool \<Rightarrow> bool \<Rightarrow> 16 word \<Rightarrow> bool \<Rightarrow> bool \<Rightarrow> pc \<Rightarrow> cache \<Rightarrow> (pc \<times> cache) go"
where
  "hit_step clk q d t msgid keep_stale return_stale Idle c =
     (let key = cache_key q d t;
          (m1, exp, stale_exp, found) = search key c;
          valid = clk 0 - exp < 0
      in if \<not> found then Inr (Done None, c)
         else if valid \<or> return_stale then
           (case m1 of
              None \<Rightarrow> Inl NilDeref
            | Some m \<Rightarrow> Inr (Found key (hit_reply msgid m) valid stale_exp, c))
         else Inr (if keep_stale then Done None else Expired key, c))"
| "hit_step clk q d t msgid keep_stale return_stale (Found key r valid stale_exp) c =
     bind_go (count_hit key valid c) (\<lambda>c. Inr (Counted key r stale_exp, c))"
| "hit_step clk q d t msgid keep_stale return_stale (Counted key r stale_exp) c =
     Inr (Done (Some r), if clk 1 - stale_exp > 0 then remove key c else c)"
| "hit_step clk q d t msgid keep_stale return_stale (Expired key) c = Inr (Done None, remove key c)"
| "hit_step clk q d t msgid keep_stale return_stale (Done r) c = Inr (Done r, c)"

fun result_of :: "pc \<Rightarrow> msg option" where
  "result_of (Done r) = r"
| "result_of p = None"

text \<open>The sequential operation is its critical sections one after the other, three at most.\<close>

lemma hit_is_three_sections:
  "hit clk q d t mid ks rs c =
     bind_go (hit_step clk q d t mid ks rs Idle c) (\<lambda>(p, c).
     bind_go (hit_step clk q d t mid ks rs p c) (\<lambda>(p, c).
     bind_go (hit_step clk q d t mid ks rs p c) (\<lambda>(p, c). Inr (result_of p, c))))"
  by (auto simp: hit_def Let_def search_def count_hit_def split: option.splits)

text \<open>A lookup ends after three sections.\<close>

fun hit_rank :: "pc \<Rightarrow> nat" where
  "hit_rank Idle = 3"
| "hit_rank (Found k r v se) = 2"
| "hit_rank (Counted k r se) = 1"
| "hit_rank (Expired k) = 1"
| "hit_rank (Done r) = 0"

lemma hit_step_rank:
  "hit_step clk q d t mid ks rs p c = Inr (p', c') \<Longrightarrow> hit_rank p \<noteq> 0 \<Longrightarrow> hit_rank p' < hit_rank p"
  by (cases p) (auto simp: Let_def go_bind split: prod.splits if_splits option.splits)

text \<open>The only section that can panic counts a hit through a key that is gone.\<close>

lemma hit_step_panic:
  "hit_step clk q d t mid ks rs p c = Inl e \<Longrightarrow>
   \<exists>k r v se. p = Found k r v se \<and> fmlookup (entries c) k = None"
  by (cases p)
    (auto simp: Let_def go_bind search_def count_hit_def split: prod.splits if_splits option.splits)

text \<open>No section exceeds the capacity.\<close>

lemma count_hit_keeps:
  "count_hit k v c = Inr c' \<Longrightarrow> cache_ok c \<Longrightarrow> cache_ok c' \<and> capacity c' = capacity c"
  by (auto simp: count_hit_def cache_ok_def fmsize_upd fmlookup_in_dom split: option.splits if_splits)

lemma hit_step_ok:
  "hit_step clk q d t mid ks rs p c = Inr (p', c') \<Longrightarrow> cache_ok c \<Longrightarrow>
   cache_ok c' \<and> capacity c' = capacity c"
  by (cases p)
    (auto simp: Let_def go_bind count_hit_keeps cache_ok_remove split: prod.splits if_splits option.splits)

end
