(* ===== verification/Hostsfile.thy ===== *)
theory Hostsfile
  imports Dns_Types
begin

text \<open>
  The hosts file (\<open>hostsfile/utils.go\<close>, \<open>hostsfile/hostsfile.go\<close>): parsing a line and a file,
  the list of entries, forward and reverse lookup, loading, and the polling loop. The file
  system is a parameter: \<open>read\<close> gives the content of a path or \<open>None\<close> for an error.
\<close>

section \<open>Entries and the list of entries\<close>

record hostname =
  h_domain :: string
  h_ip :: ip
  h_ipv6 :: bool
  h_wildcard :: bool

type_synonym hostlist = "hostname list"

definition new_hostname :: "string \<Rightarrow> ip \<Rightarrow> bool \<Rightarrow> bool \<Rightarrow> hostname" where
  "new_hostname domain p v6 wildcard =
     \<lparr>h_domain = to_lower domain, h_ip = p, h_ipv6 = v6, h_wildcard = wildcard\<rparr>"

definition hostname_equal :: "hostname \<Rightarrow> hostname \<Rightarrow> bool" where
  "hostname_equal h v =
     (if h_wildcard h \<noteq> h_wildcard v \<or> h_ipv6 h \<noteq> h_ipv6 v then False
      else if \<not> ip_equal (h_ip h) (h_ip v) then False
      else if h_domain h \<noteq> h_domain v then False
      else True)"

text \<open>\<open>add\<close>: \<open>Inl\<close> carries the duplicate entry that the error message names.\<close>

definition hostlist_add :: "hostlist \<Rightarrow> hostname \<Rightarrow> hostname + hostlist" where
  "hostlist_add hs hv =
     (let h = new_hostname (h_domain hv) (h_ip hv) (h_ipv6 hv) (h_wildcard hv) in
      if \<exists>found \<in> set hs. hostname_equal found h then Inl h else Inr (hs @ [h]))"

section \<open>Parsing\<close>

text \<open>The loop that replaces two spaces by one while there are two in a row.\<close>

function collapse_spaces :: "string \<Rightarrow> string" where
  "collapse_spaces s =
     (if contains_str s ''  '' then collapse_spaces (replace_all ''  '' '' '' s) else s)"
  by pat_completeness auto
termination
  by (relation "measure length") (auto simp: contains_str_sublist intro: replace_all_shrinks)

declare collapse_spaces.simps [simp del]

text \<open>The loop over the host names of a line; \<open>v[0:2]\<close> panics on a name shorter than two bytes.\<close>

fun parse_domains :: "ip \<Rightarrow> bool \<Rightarrow> string list \<Rightarrow> hostlist go" where
  "parse_domains p v6 [] = Inr []"
| "parse_domains p v6 (v # vs) =
     (if length v < 2 then Inl SliceBounds
      else (let wild = (take 2 v = ''*.'');
                v' = (if wild then drop 2 v else v)
            in bind_go (parse_domains p v6 vs) (\<lambda>rest. Inr (new_hostname v' p v6 wild # rest))))"

definition line_words :: "string \<Rightarrow> string list" where
  "line_words line =
     (let line = hd (split_on (CHR ''#'') line);
          line = replace_all [CHR 0x09] '' '' line;
          line = collapse_spaces line;
          line = trim_space line
      in map trim_space (split_on (CHR '' '') line))"

definition parse_line :: "string \<Rightarrow> hostlist go" where
  "parse_line line =
     (if length line = 0 then Inr []
      else if take 1 line = ''#'' then Inr []
      else
        (let ws = line_words line; address = hd ws; domains = tl ws in
         if contains_str address ''%'' then Inr []
         else
           (let p = parse_ip address in
            if \<not> is_global_unicast p \<and> \<not> is_loopback p then Inr []
            else if ip_equal p (parse_ip ''fe00::'') then Inr []
            else if to4 p \<noteq> [] then parse_domains p False domains
            else if to16 p \<noteq> [] then parse_domains p True domains
            else Inr [])))"

text \<open>\<open>newHostlistString\<close>: duplicates are reported in the log and skipped.\<close>

fun add_all :: "hostlist \<Rightarrow> hostlist \<Rightarrow> hostlist" where
  "add_all hs [] = hs"
| "add_all hs (x # xs) = (case hostlist_add hs x of Inl _ \<Rightarrow> add_all hs xs | Inr hs' \<Rightarrow> add_all hs' xs)"

fun load_lines :: "hostlist \<Rightarrow> string list \<Rightarrow> hostlist go" where
  "load_lines hs [] = Inr hs"
| "load_lines hs (l # ls) = bind_go (parse_line l) (\<lambda>xs. load_lines (add_all hs xs) ls)"

definition new_hostlist :: "string \<Rightarrow> hostlist go" where
  "new_hostlist data = load_lines [] (split_on (CHR 0x0A) data)"

section \<open>Lookup\<close>

definition exact_match :: "string \<Rightarrow> hostname \<Rightarrow> bool" where
  "exact_match name h \<longleftrightarrow> \<not> h_wildcard h \<and> h_domain h = name"

definition wildcard_match :: "string \<Rightarrow> hostname \<Rightarrow> bool" where
  "wildcard_match name h \<longleftrightarrow>
     h_wildcard h \<and> length (h_domain h) < length name \<and>
     (let domain_match = ''.'' @ h_domain h;
          cut = length name - length domain_match
      in drop cut name = domain_match \<and> \<not> contains_str (take cut name) ''.'')"

definition hostlist_find_hosts :: "hostlist \<Rightarrow> string \<Rightarrow> ip list" where
  "hostlist_find_hosts hs name =
     (let addrs = map h_ip (filter (exact_match name) hs) in
      if length addrs = 0 then map h_ip (filter (wildcard_match name) hs) else addrs)"

definition hostlist_find_host :: "hostlist \<Rightarrow> string \<Rightarrow> ip" where
  "hostlist_find_host hs name =
     (let ips = hostlist_find_hosts hs name in if length ips > 0 then ips ! 0 else [])"

section \<open>The file\<close>

record file_meta =
  f_size :: int
  f_path :: string
  f_mtime :: int

record hostsfile =
  hf_poll :: int
  hf_hosts :: hostlist
  hf_file :: file_meta

text \<open>Both lookups of the \<open>Hostfile\<close> interface return an error value (\<open>Inl\<close>) or a result.\<close>

definition hostsfile_find_hosts :: "hostsfile \<Rightarrow> string \<Rightarrow> string + ip list" where
  "hostsfile_find_hosts h name = Inr (hostlist_find_hosts (hf_hosts h) (trim_suffix name ''.''))"

fun first_reverse :: "dns_lib \<Rightarrow> string \<Rightarrow> hostlist \<Rightarrow> string" where
  "first_reverse L name [] = []"
| "first_reverse L name (h # hs) =
     (if name = reverse_addr L (ip_string (h_ip h)) then fqdn L (h_domain h)
      else first_reverse L name hs)"

definition hostsfile_find_reverse :: "dns_lib \<Rightarrow> hostsfile \<Rightarrow> string \<Rightarrow> string + string" where
  "hostsfile_find_reverse L h name = Inr (first_reverse L name (hf_hosts h))"

text \<open>\<open>loadHostEntries\<close>: the object and whether reading failed; a failure leaves the entries.\<close>

definition load_host_entries :: "(string \<Rightarrow> string option) \<Rightarrow> hostsfile \<Rightarrow> (hostsfile \<times> bool) go" where
  "load_host_entries read h =
     (case read (f_path (hf_file h)) of
        None \<Rightarrow> Inr (h, True)
      | Some data \<Rightarrow> bind_go (new_hostlist data) (\<lambda>hs. Inr (h\<lparr>hf_hosts := hs\<rparr>, False)))"

text \<open>\<open>NewHostsfile\<close>: \<open>None\<close> is the error return. The polling goroutine is \<open>monitor_run\<close> below.\<close>

definition new_hostsfile ::
  "(string \<Rightarrow> string option) \<Rightarrow> string \<Rightarrow> int \<Rightarrow> hostsfile option go"
where
  "new_hostsfile read path poll =
     (let h = \<lparr>hf_poll = poll, hf_hosts = [],
               hf_file = \<lparr>f_size = 0, f_path = [], f_mtime = - 62135596800 * 1000000000\<rparr>\<rparr> in
      if path = [] then Inr (Some h)
      else
        (let h = h\<lparr>hf_file := (hf_file h)\<lparr>f_path := path\<rparr>\<rparr> in
         bind_go (load_host_entries read h)
           (\<lambda>(h', err). if err then Inr None else Inr (Some h'))))"

section \<open>Polling\<close>

text \<open>
  One tick of the polling loop: \<open>hf\<close> is the loop's copy of the file's metadata, \<open>stat\<close> the
  result of \<open>hostsFileMetadata\<close> (modification time and size, or an error).
\<close>

definition monitor_tick ::
  "(int \<times> int) option \<Rightarrow> (string \<Rightarrow> string option) \<Rightarrow> hostsfile \<times> file_meta
    \<Rightarrow> (hostsfile \<times> file_meta) go"
where
  "monitor_tick stat read s =
     (let (h, hf) = s in
      case stat of
        None \<Rightarrow> Inr (h, hf)
      | Some (mt, sz) \<Rightarrow>
          if f_mtime hf = mt \<and> f_size hf = sz then Inr (h, hf)
          else
            bind_go (load_host_entries read h) (\<lambda>(h', err).
              (let h2 = h'\<lparr>hf_file := (hf_file h')\<lparr>f_mtime := mt, f_size := sz\<rparr>\<rparr>
               in Inr (h2, hf_file h2))))"

fun monitor_ticks ::
  "((int \<times> int) option \<times> (string \<Rightarrow> string option)) list \<Rightarrow> hostsfile \<times> file_meta
    \<Rightarrow> (hostsfile \<times> file_meta) go"
where
  "monitor_ticks [] s = Inr s"
| "monitor_ticks ((stat, read) # ts) s = bind_go (monitor_tick stat read s) (monitor_ticks ts)"

definition monitor_run ::
  "((int \<times> int) option \<times> (string \<Rightarrow> string option)) list \<Rightarrow> hostsfile \<Rightarrow> hostsfile go"
where
  "monitor_run ts h =
     (if f_path (hf_file h) = [] then Inr h
      else bind_go (monitor_ticks ts (h, hf_file h)) (\<lambda>(h', _). Inr h'))"

end
