(* ===== verification/Server_Records.thy ===== *)
theory Server_Records
  imports Dns_Types
begin

text \<open>
  The records the server makes from hosts-file entries (\<open>AddressRecords\<close> and \<open>PTRRecords\<close> of
  \<open>server/server.go\<close>) and the interface they rest on, \<open>Hostfile\<close>, as the locale \<open>hostfile\<close>:
  its operations, what a provider promises, and what follows for the server.
\<close>

section \<open>Records for addresses and names\<close>

definition address_record :: "32 word \<Rightarrow> question \<Rightarrow> ip \<Rightarrow> rr option" where
  "address_record hosts_ttl q p =
     (if to4 p \<noteq> [] \<and> (q_type q = type_A \<or> q_type q = type_ANY)
      then Some \<lparr>rr_name = q_name q, rr_type = type_A, rr_class = class_INET, rr_ttl = hosts_ttl,
                 rr_data = RD_A (to4 p)\<rparr>
      else if to4 p = [] \<and> (q_type q = type_AAAA \<or> q_type q = type_ANY)
      then Some \<lparr>rr_name = q_name q, rr_type = type_AAAA, rr_class = class_INET, rr_ttl = hosts_ttl,
                 rr_data = RD_AAAA (to16 p)\<rparr>
      else None)"

fun collect_records :: "32 word \<Rightarrow> question \<Rightarrow> ip list \<Rightarrow> rr list" where
  "collect_records hosts_ttl q [] = []"
| "collect_records hosts_ttl q (p # ps) =
     (case address_record hosts_ttl q p of
        Some r \<Rightarrow> r # collect_records hosts_ttl q ps
      | None \<Rightarrow> collect_records hosts_ttl q ps)"

definition address_records ::
  "(string \<Rightarrow> string + ip list) \<Rightarrow> 32 word \<Rightarrow> question \<Rightarrow> string \<Rightarrow> string + rr list"
where
  "address_records find_hosts hosts_ttl q name =
     (case find_hosts name of
        Inl err \<Rightarrow> Inl err
      | Inr results \<Rightarrow> Inr (collect_records hosts_ttl q results))"

definition ptr_records ::
  "(string \<Rightarrow> string + string) \<Rightarrow> 32 word \<Rightarrow> question \<Rightarrow> string + rr list"
where
  "ptr_records find_reverse hosts_ttl q =
     (case find_reverse (to_lower (q_name q)) of
        Inl err \<Rightarrow> Inl err
      | Inr result \<Rightarrow>
          Inr (if result \<noteq> []
               then [\<lparr>rr_name = q_name q, rr_type = type_PTR, rr_class = class_INET,
                      rr_ttl = hosts_ttl, rr_data = RD_PTR result\<rparr>]
               else []))"

lemma collect_records_iff:
  "r \<in> set (collect_records hosts_ttl q ps) \<longleftrightarrow> (\<exists>p \<in> set ps. address_record hosts_ttl q p = Some r)"
  by (induction ps) (auto split: option.splits)

lemma collect_records_map_filter:
  "collect_records hosts_ttl q ps = List.map_filter (address_record hosts_ttl q) ps"
  by (induction ps) (auto simp: map_filter_simps split: option.splits)

text \<open>A record answers a question: same name, the type asked for or any type, an address of its type.\<close>

definition answers_question :: "32 word \<Rightarrow> question \<Rightarrow> rr \<Rightarrow> bool" where
  "answers_question hosts_ttl q r \<longleftrightarrow>
     rr_name r = q_name q \<and> rr_class r = class_INET \<and> rr_ttl r = hosts_ttl \<and>
     (q_type q = rr_type r \<or> q_type q = type_ANY) \<and>
     (case rr_data r of
        RD_A a \<Rightarrow> rr_type r = type_A \<and> length a = 4
      | RD_AAAA a \<Rightarrow> rr_type r = type_AAAA \<and> length a = 16
      | _ \<Rightarrow> False)"

section \<open>The interface\<close>

locale hostfile =
  fixes find_hosts :: "'h \<Rightarrow> string \<Rightarrow> string + ip list"
    and find_reverse :: "'h \<Rightarrow> string \<Rightarrow> string + string"
    and good :: "'h \<Rightarrow> bool"
  assumes find_hosts_returns: "\<exists>ps. find_hosts h n = Inr ps"
    and find_hosts_address: "good h \<Longrightarrow> find_hosts h n = Inr ps \<Longrightarrow> p \<in> set ps \<Longrightarrow> length p = 16"
    and find_hosts_dot: "\<not> has_suffix n ''.'' \<Longrightarrow> find_hosts h (n @ ''.'') = find_hosts h n"
    and find_reverse_returns: "\<exists>r. find_reverse h n = Inr r"
    and find_reverse_absolute: "good h \<Longrightarrow> find_reverse h n = Inr r \<Longrightarrow> r \<noteq> [] \<Longrightarrow> has_suffix r ''.''"
begin

lemma address_records_return: "\<exists>rs. address_records (find_hosts h) t q n = Inr rs"
  using find_hosts_returns [of h n] by (auto simp: address_records_def)

lemma address_records_answer:
  assumes "good h" "address_records (find_hosts h) t q n = Inr rs" "r \<in> set rs"
  shows "answers_question t q r"
proof -
  obtain ps where ps: "find_hosts h n = Inr ps" using find_hosts_returns by blast
  with assms(2,3) obtain p where p: "p \<in> set ps" "address_record t q p = Some r"
    by (auto simp: address_records_def collect_records_iff)
  have "length p = 16" using find_hosts_address [OF assms(1) ps p(1)] .
  with p(2) show ?thesis
    by (auto simp: address_record_def answers_question_def length_to4 length_to16 split: if_splits)
qed

text \<open>For type ANY every address gives a record, in the order of the addresses.\<close>

lemma address_records_any:
  assumes "q_type q = type_ANY" "find_hosts h n = Inr ps"
  shows "\<exists>rs. address_records (find_hosts h) t q n = Inr rs \<and> length rs = length ps"
proof -
  have "length (collect_records t q ps) = length ps"
    by (induction ps) (use assms(1) in \<open>auto simp: address_record_def\<close>)
  with assms(2) show ?thesis by (simp add: address_records_def)
qed

lemma ptr_records_answer:
  assumes "good h" "ptr_records (find_reverse h) t q = Inr rs"
  shows "rs = [] \<or> (\<exists>target. has_suffix target ''.'' \<and>
     rs = [\<lparr>rr_name = q_name q, rr_type = type_PTR, rr_class = class_INET, rr_ttl = t,
            rr_data = RD_PTR target\<rparr>])"
  using assms find_reverse_returns [of h "to_lower (q_name q)"]
    find_reverse_absolute [OF assms(1), of "to_lower (q_name q)"]
  by (auto simp: ptr_records_def split: if_splits)

end

end
