(* ===== verification/Hostsfile_Correct.thy ===== *)
theory Hostsfile_Correct
  imports Hostsfile Server_Records
begin

text \<open>
  Correctness of the hosts file: what parsing accepts, the well-formedness of every list it
  builds, the meaning of lookups, the polling loop, and the interpretation of the server's
  interface \<open>hostfile\<close> on this component.
\<close>

section \<open>Collapsing spaces\<close>

text \<open>A direct description of the text with every run of spaces reduced to one.\<close>

fun squeeze :: "string \<Rightarrow> string" where
  "squeeze (c # d # s) = (if c = CHR '' '' \<and> d = CHR '' '' then squeeze (d # s) else c # squeeze (d # s))"
| "squeeze s = s"

lemma squeeze_space: "squeeze (CHR '' '' # s) =
   (case s of [] \<Rightarrow> '' '' | d # _ \<Rightarrow> if d = CHR '' '' then squeeze s else CHR '' '' # squeeze s)"
  by (cases s) auto

lemma squeeze_other: "c \<noteq> CHR '' '' \<Longrightarrow> squeeze (c # s) = c # squeeze s"
  by (cases s) auto

lemma replace_two_spaces_Cons:
  "replace_all ''  '' '' '' (c # s) =
     (if c = CHR '' '' \<and> s \<noteq> [] \<and> hd s = CHR '' '' then CHR '' '' # replace_all ''  '' '' '' (tl s)
      else c # replace_all ''  '' '' '' s)"
  by (cases s) (auto simp: replace_all_Cons)

lemma replace_two_spaces_Nil [simp]: "replace_all ''  '' '' '' s = [] \<longleftrightarrow> s = []"
  by (cases s) (auto simp: replace_two_spaces_Cons)

lemma replace_two_spaces_hd:
  "s \<noteq> [] \<Longrightarrow> hd (replace_all ''  '' '' '' s) = CHR '' '' \<longleftrightarrow> hd s = CHR '' ''"
  by (cases s) (auto simp: replace_two_spaces_Cons)

lemma squeeze_space_hd: "s \<noteq> [] \<Longrightarrow> squeeze (CHR '' '' # s)
   = (if hd s = CHR '' '' then squeeze s else CHR '' '' # squeeze s)"
  by (cases s) auto

lemma squeeze_space_cong:
  assumes "squeeze x = squeeze y" "x = [] \<longleftrightarrow> y = []"
    and "x \<noteq> [] \<Longrightarrow> hd x = CHR '' '' \<longleftrightarrow> hd y = CHR '' ''"
  shows "squeeze (CHR '' '' # x) = squeeze (CHR '' '' # y)"
  using assms by (cases "x = []") (simp_all add: squeeze_space_hd del: squeeze.simps)

lemma squeeze_replace: "squeeze (replace_all ''  '' '' '' s) = squeeze s"
proof (induction s rule: length_induct)
  case (1 s)
  show ?case
  proof (cases s)
    case (Cons c cs)
    have cong: "squeeze (CHR '' '' # replace_all ''  '' '' '' t) = squeeze (CHR '' '' # t)"
      if "length t < length s" for t
      using 1 that by (intro squeeze_space_cong) (simp_all add: replace_two_spaces_hd)
    consider (two) "c = CHR '' ''" "cs \<noteq> []" "hd cs = CHR '' ''"
      | (one) "c = CHR '' ''" "cs = [] \<or> hd cs \<noteq> CHR '' ''" | (other) "c \<noteq> CHR '' ''"
      by blast
    then show ?thesis
    proof cases
      case two
      then obtain t where t: "cs = CHR '' '' # t" by (cases cs) auto
      have "replace_all ''  '' '' '' s = CHR '' '' # replace_all ''  '' '' '' t"
        using Cons two t by (simp add: replace_two_spaces_Cons)
      with cong [of t] Cons two t show ?thesis by simp
    next
      case one
      then have "replace_all ''  '' '' '' s = CHR '' '' # replace_all ''  '' '' '' cs"
        using Cons by (auto simp: replace_two_spaces_Cons)
      with cong [of cs] Cons one show ?thesis by simp
    next
      case other
      with Cons 1 show ?thesis by (simp add: replace_two_spaces_Cons squeeze_other)
    qed
  qed simp
qed

lemma squeeze_fixed: "\<not> contains_str s ''  '' \<Longrightarrow> squeeze s = s"
  by (induction s rule: squeeze.induct) auto

lemma squeeze_starts: "prefix [c] (squeeze (d # s)) \<longleftrightarrow> c = d"
proof -
  have "hd (squeeze (d # s)) = d \<and> squeeze (d # s) \<noteq> []"
    by (induction s arbitrary: d) auto
  then show ?thesis by (cases "squeeze (d # s)") auto
qed

lemma squeeze_collapse: "collapse_spaces s = squeeze s"
proof (induction s rule: collapse_spaces.induct)
  case (1 s)
  show ?case
  proof (cases "contains_str s ''  ''")
    case True
    with 1 show ?thesis by (simp add: collapse_spaces.simps [of s] squeeze_replace)
  next
    case False
    then show ?thesis by (simp add: collapse_spaces.simps [of s] squeeze_fixed)
  qed
qed

text \<open>
  The loop that replaces two spaces by one until there are no two in a row ends for every
  line, and computes the line with each run of spaces reduced to a single space.
\<close>

lemma collapse_spaces_squeeze: "collapse_spaces s = squeeze s \<and> \<not> contains_str (collapse_spaces s) ''  ''"
proof -
  have "\<not> contains_str (squeeze s) ''  ''"
    by (induction s rule: squeeze.induct) (auto simp: squeeze_starts)
  then show ?thesis by (simp add: squeeze_collapse)
qed

section \<open>What a line and a file yield\<close>

text \<open>
  A well-formed entry: a lower-case name, an address in sixteen-byte form that is global unicast
  or loopback, and the IPv6 flag set exactly when the address is not an IPv4 one.
\<close>

definition host_ok :: "hostname \<Rightarrow> bool" where
  "host_ok h \<longleftrightarrow>
     length (h_ip h) = 16 \<and> (is_global_unicast (h_ip h) \<or> is_loopback (h_ip h)) \<and>
     h_ipv6 h = (to4 (h_ip h) = []) \<and> to_lower (h_domain h) = h_domain h"

definition hosts_ok :: "hostlist \<Rightarrow> bool" where
  "hosts_ok hs \<longleftrightarrow>
     (\<forall>h \<in> set hs. host_ok h) \<and> sorted_wrt (\<lambda>a b. \<not> hostname_equal a b) hs"

lemma parse_domains_entries:
  "parse_domains p v6 vs = Inr xs \<Longrightarrow> h \<in> set xs \<Longrightarrow>
   h_ip h = p \<and> h_ipv6 h = v6 \<and> to_lower (h_domain h) = h_domain h"
  by (induction p v6 vs arbitrary: xs rule: parse_domains.induct)
    (auto simp: go_bind new_hostname_def Let_def split: if_splits)

lemma parse_domains_panic:
  "parse_domains p v6 vs = Inl e \<longleftrightarrow> e = SliceBounds \<and> (\<exists>v \<in> set vs. length v < 2)"
  by (induction p v6 vs rule: parse_domains.induct) (auto simp: go_bind Let_def)

text \<open>The line's address, when the line is one that gives entries.\<close>

definition line_ip :: "string \<Rightarrow> ip" where
  "line_ip line = parse_ip (hd (line_words line))"

definition active_line :: "string \<Rightarrow> bool" where
  "active_line line \<longleftrightarrow>
     line \<noteq> [] \<and> hd line \<noteq> CHR ''#'' \<and> CHR ''%'' \<notin> set (hd (line_words line)) \<and>
     (is_global_unicast (line_ip line) \<or> is_loopback (line_ip line)) \<and>
     \<not> ip_equal (line_ip line) (parse_ip ''fe00::'')"

lemma usable_ip:
  "is_global_unicast p \<or> is_loopback p \<Longrightarrow> length p = 4 \<or> length p = 16"
  by (auto simp: is_global_unicast_def is_loopback_def to4_def ip_equal_def ipv6_loopback_def
      split: list.splits if_splits)

lemma take1_hd: "s \<noteq> [] \<Longrightarrow> take (Suc 0) s = [c] \<longleftrightarrow> hd s = c"
  by (cases s) auto

lemma to16_Nil: "length p = 4 \<or> length p = 16 \<Longrightarrow> to16 p \<noteq> []"
  using length_to16 by fastforce

lemma parse_line_eq:
  "parse_line line =
     (if active_line line
      then parse_domains (line_ip line) (to4 (line_ip line) = []) (tl (line_words line))
      else Inr [])"
  using usable_ip [of "line_ip line"] to16_Nil [of "line_ip line"]
  by (auto simp: parse_line_def active_line_def Let_def line_ip_def take1_hd contains_char)

lemma parse_line_entries:
  assumes "parse_line line = Inr xs" "h \<in> set xs"
  shows "host_ok h"
proof -
  from assms have a: "active_line line"
    and d: "parse_domains (line_ip line) (to4 (line_ip line) = []) (tl (line_words line)) = Inr xs"
    by (auto simp: parse_line_eq split: if_splits)
  have "line_ip line \<noteq> []" using a usable_ip [of "line_ip line"] by (auto simp: active_line_def)
  then have "length (line_ip line) = 16" by (simp add: line_ip_def parse_ip_length)
  with parse_domains_entries [OF d assms(2)] a show ?thesis
    by (auto simp: host_ok_def active_line_def)
qed

text \<open>
  C30. A line makes the parser panic exactly when it names a usable address and one of its host
  names is shorter than two bytes, because the test for a wildcard slices two bytes; no other
  text, however malformed, stops it.
\<close>

theorem parse_line_panics_iff:
  "parse_line line = Inl e \<longleftrightarrow>
     e = SliceBounds \<and> active_line line \<and> (\<exists>v \<in> set (tl (line_words line)). length v < 2)"
  by (auto simp: parse_line_eq parse_domains_panic)

text \<open>For example a no-break space between two spaces: it is a word, and nothing is left of it.\<close>

lemma no_break_space_panics:
  "parse_line (''127.0.0.1 '' @ [CHR 0xC2, CHR 0xA0] @ '' ab'') = Inl SliceBounds"
  by code_simp

lemma new_hostname_id:
  "to_lower (h_domain h) = h_domain h \<Longrightarrow>
   new_hostname (h_domain h) (h_ip h) (h_ipv6 h) (h_wildcard h) = h"
  by (simp add: new_hostname_def)

lemma hostname_equal_sym: "hostname_equal a b \<Longrightarrow> hostname_equal b a"
  by (auto simp: hostname_equal_def ip_equal_sym split: if_splits)

lemma hostname_equal_refl [simp]: "hostname_equal h h"
  by (simp add: hostname_equal_def)

lemma hostlist_add_eq:
  assumes "host_ok x"
  shows "hostlist_add hs x
     = (if \<exists>found \<in> set hs. hostname_equal found x then Inl x else Inr (hs @ [x]))"
proof -
  have "new_hostname (h_domain x) (h_ip x) (h_ipv6 x) (h_wildcard x) = x"
    using assms by (intro new_hostname_id) (simp add: host_ok_def)
  then show ?thesis by (simp add: hostlist_add_def Let_def)
qed

lemma hosts_ok_snoc:
  "hosts_ok hs \<Longrightarrow> host_ok x \<Longrightarrow> \<not> (\<exists>found \<in> set hs. hostname_equal found x) \<Longrightarrow>
   hosts_ok (hs @ [x])"
  by (auto simp: hosts_ok_def sorted_wrt_append)

lemma add_all_ok:
  "hosts_ok hs \<Longrightarrow> \<forall>x \<in> set xs. host_ok x \<Longrightarrow> hosts_ok (add_all hs xs)"
proof (induction hs xs rule: add_all.induct)
  case (2 hs x xs)
  then have x: "host_ok x" by simp
  show ?case
  proof (cases "\<exists>found \<in> set hs. hostname_equal found x")
    case True
    with 2 show ?thesis by (simp add: hostlist_add_eq [OF x])
  next
    case False
    with 2 hosts_ok_snoc [OF 2(3) x False] show ?thesis by (simp add: hostlist_add_eq [OF x])
  qed
qed simp

lemma add_all_keeps: "h \<in> set hs \<Longrightarrow> h \<in> set (add_all hs xs)"
  by (induction hs xs rule: add_all.induct) (auto simp: hostlist_add_def Let_def split: sum.splits if_splits)

lemma add_all_covers:
  "x \<in> set xs \<Longrightarrow> \<forall>x \<in> set xs. host_ok x \<Longrightarrow> \<exists>h \<in> set (add_all hs xs). hostname_equal h x"
proof (induction hs xs rule: add_all.induct)
  case (2 hs y ys)
  then have y: "host_ok y" by simp
  show ?case
  proof (cases "\<exists>found \<in> set hs. hostname_equal found y")
    case True
    with 2 show ?thesis
      by (cases "x = y") (auto simp: hostlist_add_eq [OF y] intro: add_all_keeps)
  next
    case False
    have "y \<in> set (add_all (hs @ [y]) ys)" by (rule add_all_keeps) simp
    with False 2 show ?thesis
      by (cases "x = y") (auto simp: hostlist_add_eq [OF y] intro: bexI [of _ y])
  qed
qed simp

lemma load_lines_ok:
  "load_lines hs ls = Inr r \<Longrightarrow> hosts_ok hs \<Longrightarrow> hosts_ok r"
  by (induction hs ls rule: load_lines.induct)
    (auto simp: go_bind add_all_ok parse_line_entries)

lemma load_lines_keeps: "load_lines hs ls = Inr r \<Longrightarrow> h \<in> set hs \<Longrightarrow> h \<in> set r"
  by (induction hs ls rule: load_lines.induct) (auto simp: go_bind add_all_keeps)

lemma load_lines_covers:
  "load_lines hs ls = Inr r \<Longrightarrow> l \<in> set ls \<Longrightarrow> parse_line l = Inr xs \<Longrightarrow> x \<in> set xs \<Longrightarrow>
   \<exists>h \<in> set r. hostname_equal h x"
proof (induction hs ls rule: load_lines.induct)
  case (2 hs k ks)
  then obtain ys where ys: "parse_line k = Inr ys" "load_lines (add_all hs ys) ks = Inr r"
    by (auto simp: go_bind)
  show ?case
  proof (cases "l = k")
    case True
    with 2 ys have "\<exists>h \<in> set (add_all hs ys). hostname_equal h x"
      by (intro add_all_covers) (auto dest: parse_line_entries)
    with load_lines_keeps [OF ys(2)] show ?thesis by blast
  next
    case False
    with 2 ys show ?thesis by auto
  qed
qed simp

text \<open>A concrete hosts file: one line, a name and a wildcard.\<close>

definition sample_hosts :: string where
  "sample_hosts = ''127.0.0.1 ab *.cd''"

definition sample_entries :: hostlist where
  "sample_entries =
     [\<lparr>h_domain = ''ab'', h_ip = v4_in_v6_prefix @ [127, 0, 0, 1], h_ipv6 = False, h_wildcard = False\<rparr>,
      \<lparr>h_domain = ''cd'', h_ip = v4_in_v6_prefix @ [127, 0, 0, 1], h_ipv6 = False, h_wildcard = True\<rparr>]"

lemma sample_hosts_list: "new_hostlist sample_hosts = Inr sample_entries"
  by code_simp

lemma sample_hosts_line: "parse_line sample_hosts = Inr sample_entries"
  by code_simp

text \<open>
  The entries of a file: those of its lines in order, each one only where it occurs first. The list
  that is read is exactly that.
\<close>

definition file_entries :: "string \<Rightarrow> hostlist" where
  "file_entries data =
     rev (remdups (rev (concat (map (\<lambda>l. case parse_line l of Inl _ \<Rightarrow> [] | Inr xs \<Rightarrow> xs)
       (split_on (CHR 0x0A) data)))))"

lemma hostname_equal_ok: "host_ok a \<Longrightarrow> host_ok b \<Longrightarrow> hostname_equal a b \<longleftrightarrow> a = b"
  by (auto simp: hostname_equal_def host_ok_def ip_equal_def)

lemma first_occurrences_snoc:
  "rev (remdups (rev (xs @ [x]))) = (if x \<in> set xs then rev (remdups (rev xs)) else rev (remdups (rev xs)) @ [x])"
  by simp

lemma add_all_first_occurrences:
  "\<forall>x \<in> set ys \<union> set xs. host_ok x \<Longrightarrow>
   add_all (rev (remdups (rev ys))) xs = rev (remdups (rev (ys @ xs)))"
proof (induction xs arbitrary: ys)
  case (Cons x xs)
  then have x: "host_ok x" by simp
  have "(\<exists>found \<in> set (rev (remdups (rev ys))). hostname_equal found x) \<longleftrightarrow> x \<in> set ys"
    using Cons.prems by (auto simp: hostname_equal_ok)
  then have "add_all (rev (remdups (rev ys))) (x # xs) = add_all (rev (remdups (rev (ys @ [x])))) xs"
    by (simp add: hostlist_add_eq [OF x])
  also have "\<dots> = rev (remdups (rev ((ys @ [x]) @ xs)))" by (rule Cons.IH) (use Cons.prems in auto)
  finally show ?case by simp
qed simp

lemma load_lines_first_occurrences:
  "load_lines (rev (remdups (rev ys))) ls = Inr hs \<Longrightarrow> \<forall>x \<in> set ys. host_ok x \<Longrightarrow>
   hs = rev (remdups (rev (ys @ concat (map (\<lambda>l. case parse_line l of Inl _ \<Rightarrow> [] | Inr xs \<Rightarrow> xs) ls))))"
proof (induction ls arbitrary: ys)
  case (Cons l ls)
  then obtain xs where xs: "parse_line l = Inr xs" "load_lines (add_all (rev (remdups (rev ys))) xs) ls = Inr hs"
    by (auto simp: go_bind)
  have ok: "\<forall>x \<in> set (ys @ xs). host_ok x" using Cons.prems(2) parse_line_entries [OF xs(1)] by auto
  then have "load_lines (rev (remdups (rev (ys @ xs)))) ls = Inr hs"
    using xs(2) add_all_first_occurrences [of ys xs] by simp
  from Cons.IH [OF this ok] xs(1) show ?case by simp
qed simp

lemma new_hostlist_entries: "new_hostlist data = Inr hs \<Longrightarrow> hs = file_entries data"
  using load_lines_first_occurrences [of "[]"] by (simp add: new_hostlist_def file_entries_def)

text \<open>
  C27. Every list read from a hosts file is well-formed: lower-case names, usable addresses with
  the right family flag, and no two entries that agree in name, address, family and wildcard.
\<close>

theorem hosts_file_well_formed:
  assumes "new_hostlist data = Inr hs"
  shows "hosts_ok hs"
  using assms load_lines_ok by (auto simp: new_hostlist_def hosts_ok_def)

theorem hosts_file_well_formed_witness: "hosts_ok sample_entries"
  using sample_hosts_list by (rule hosts_file_well_formed)

text \<open>
  C28. Reading a hosts file loses nothing: every entry of every line of the file is in the list,
  up to equality of entries.
\<close>

theorem hosts_file_complete:
  assumes "new_hostlist data = Inr hs" "l \<in> set (split_on (CHR 0x0A) data)"
    and "parse_line l = Inr xs" "x \<in> set xs"
  shows "\<exists>h \<in> set hs. hostname_equal h x"
  using assms load_lines_covers by (auto simp: new_hostlist_def)

theorem hosts_file_complete_witness:
  "\<exists>h \<in> set sample_entries. hostname_equal h (sample_entries ! 1)"
proof (rule hosts_file_complete [OF sample_hosts_list _ sample_hosts_line])
  show "sample_hosts \<in> set (split_on (CHR 0x0A) sample_hosts)" by code_simp
qed (simp add: sample_entries_def)

lemma hd_split_on_append: "hd (split_on c (l @ c # s)) = hd (split_on c l)"
proof (induction l)
  case (Cons x xs)
  then show ?case
    by (cases "split_on c xs"; cases "split_on c (xs @ c # s)") (auto split: list.splits)
qed simp

text \<open>What follows a comment sign in a line does not matter: the line is read as if it ended there.\<close>

lemma parse_line_ignores_comment:
  "parse_line (l @ ''#'' @ comment) = parse_line l"
proof (cases l)
  case Nil
  then show ?thesis by (simp add: parse_line_def)
next
  case (Cons c cs)
  have "line_words (l @ ''#'' @ comment) = line_words l"
    by (simp add: line_words_def hd_split_on_append)
  then show ?thesis by (simp add: parse_line_eq active_line_def line_ip_def Cons)
qed

section \<open>Reading back a written line\<close>

definition plain_word :: "string \<Rightarrow> bool" where
  "plain_word w \<longleftrightarrow> w \<noteq> [] \<and> (\<forall>c \<in> set w. \<not> is_space c \<and> c \<noteq> CHR ''#'') \<and> trim_space w = w"

lemma plain_word_trim: "plain_word w \<Longrightarrow> trim_space w = w"
  by (simp add: plain_word_def)

lemma set_join_with: "set (join_with c ws) \<subseteq> insert c (\<Union>w \<in> set ws. set w)"
  by (induction c ws rule: join_with.induct) auto

lemma join_plain:
  assumes "ws \<noteq> []" "\<forall>w \<in> set ws. plain_word w"
  shows "join_with c ws \<noteq> []" "hd (join_with c ws) = hd (hd ws)" "last (join_with c ws) = last (last ws)"
  using assms by (induction c ws rule: join_with.induct) (auto simp: plain_word_def)

lemma squeeze_plain_append: "\<forall>c \<in> set w. c \<noteq> CHR '' '' \<Longrightarrow> squeeze (w @ s) = w @ squeeze s"
  by (induction w) (auto simp: squeeze_other)

lemma plain_no_space: "plain_word w \<Longrightarrow> c \<in> set w \<Longrightarrow> c \<noteq> CHR '' ''"
  by (auto simp: plain_word_def is_space_def)

lemma squeeze_join:
  "\<forall>w \<in> set ws. plain_word w \<Longrightarrow> squeeze (join_with (CHR '' '') ws) = join_with (CHR '' '') ws"
proof (induction ws)
  case (Cons w ws)
  have w: "\<forall>c \<in> set w. c \<noteq> CHR '' ''" using Cons.prems by (auto dest: plain_no_space)
  show ?case
  proof (cases "ws = []")
    case True
    then show ?thesis using squeeze_plain_append [OF w, of "[]"] by simp
  next
    case False
    let ?r = "join_with (CHR '' '') ws"
    have r: "?r \<noteq> []" "hd ?r = hd (hd ws)"
      using join_plain [OF False, of "CHR '' ''"] Cons.prems by auto
    have "plain_word (hd ws)" using False Cons.prems by simp
    then have "hd (hd ws) \<noteq> CHR '' ''"
      by (intro plain_no_space [of "hd ws"]) (auto simp: plain_word_def)
    with r have "squeeze (CHR '' '' # ?r) = CHR '' '' # squeeze ?r"
      by (simp add: squeeze_space_hd del: squeeze.simps)
    with False Cons w show ?thesis by (simp add: join_with_Cons squeeze_plain_append)
  qed
qed simp

lemma join_with_first: "ws \<noteq> [] \<Longrightarrow> join_with c ws = hd ws \<or> (\<exists>s. join_with c ws = hd ws @ c # s)"
  by (cases ws; cases "tl ws") (auto simp: join_with_Cons)

lemma join_with_last: "ws \<noteq> [] \<Longrightarrow> join_with c ws = last ws \<or> (\<exists>s. join_with c ws = s @ c # last ws)"
proof (induction ws)
  case (Cons w ws)
  show ?case
  proof (cases "ws = []")
    case False
    then have "join_with c (w # ws) = w @ c # join_with c ws" by (rule join_with_Cons)
    moreover have "join_with c ws = last ws \<or> (\<exists>s. join_with c ws = s @ c # last ws)"
      by (rule Cons.IH [OF False])
    ultimately show ?thesis using False by (metis append_Cons append_assoc last_ConsR)
  qed simp
qed simp

text \<open>White space at the end of a text is white space at the end of its last word.\<close>

lemma space_rune_ends:
  assumes "r \<in> set space_runes" "w \<noteq> []" "CHR '' '' \<notin> set w"
  shows "prefix r (w @ CHR '' '' # s) \<Longrightarrow> prefix r w" "suffix r (s @ CHR '' '' # w) \<Longrightarrow> suffix r w"
proof -
  have r: "CHR '' '' \<in> set r \<Longrightarrow> r = [CHR '' '']" by (rule space_runes_facts(2) [OF assms(1)])
  show "prefix r w" if "prefix r (w @ CHR '' '' # s)"
  proof (rule ccontr)
    assume "\<not> prefix r w"
    with that obtain us where us: "r = w @ us" "prefix us (CHR '' '' # s)" "us \<noteq> []"
      by (auto simp: prefix_append)
    then have "CHR '' '' \<in> set r" by (cases us) auto
    with r us assms(2,3) show False by (cases w) auto
  qed
  show "suffix r w" if "suffix r (s @ CHR '' '' # w)"
  proof (rule ccontr)
    assume "\<not> suffix r w"
    with that obtain us where us: "r = us @ w" "suffix us (s @ [CHR '' ''])" "us \<noteq> []"
      using suffix_append [of r "s @ [CHR '' '']" w] by auto
    then have "last us = CHR '' ''" by (auto simp: suffix_def) (metis last_appendR last_snoc)
    then have "CHR '' '' \<in> set r" using us by (metis UnI1 last_in_set set_append)
    with r us assms(2,3) show False by (cases us) auto
  qed
qed

lemma trim_space_join:
  assumes "ws \<noteq> []" "\<forall>w \<in> set ws. plain_word w"
  shows "trim_space (join_with (CHR '' '') ws) = join_with (CHR '' '') ws"
  unfolding trim_space_same
proof (intro ballI conjI)
  fix r assume r: "r \<in> set space_runes"
  have w: "w \<noteq> []" "CHR '' '' \<notin> set w" "\<not> prefix r w" "\<not> suffix r w" if "w \<in> set ws" for w
    using assms(2) that r plain_no_space [of w] trim_space_same [of w] by (auto simp: plain_word_def)
  have ends: "hd ws \<in> set ws" "last ws \<in> set ws" using assms(1) by simp_all
  from join_with_first [OF assms(1), of "CHR '' ''"] space_rune_ends(1) [OF r w(1,2) [OF ends(1)]] w(3) [OF ends(1)]
  show "\<not> prefix r (join_with (CHR '' '') ws)" by auto
  from join_with_last [OF assms(1), of "CHR '' ''"] space_rune_ends(2) [OF r w(1,2) [OF ends(2)]] w(4) [OF ends(2)]
  show "\<not> suffix r (join_with (CHR '' '') ws)" by auto
qed

lemma line_words_join:
  assumes "ws \<noteq> []" "\<forall>w \<in> set ws. plain_word w"
  shows "line_words (join_with (CHR '' '') ws) = ws"
proof -
  let ?s = "join_with (CHR '' '') ws"
  have chars: "CHR ''#'' \<notin> set ?s" "CHR 0x09 \<notin> set ?s"
    using set_join_with [of "CHR '' ''" ws] assms(2) by (auto simp: plain_word_def is_space_def)
  have 1: "hd (split_on (CHR ''#'') ?s) = ?s" using chars by (simp add: split_on_no_sep)
  have 2: "replace_all [CHR 0x09] '' '' ?s = ?s"
    using chars by (intro replace_all_absent) (simp flip: contains_str_sublist add: contains_char)
  have 3: "collapse_spaces ?s = ?s" using squeeze_join [OF assms(2)] by (simp add: squeeze_collapse)
  have 4: "trim_space ?s = ?s" by (rule trim_space_join [OF assms])
  have 5: "split_on (CHR '' '') ?s = ws"
    using assms plain_no_space by (intro split_on_join) auto
  have "map trim_space ws = ws" using assms(2) plain_word_trim by (simp add: map_idI)
  then show ?thesis by (simp only: line_words_def Let_def 1 2 3 4 5)
qed

text \<open>The entry a word of a line stands for.\<close>

definition entry_of :: "ip \<Rightarrow> string \<Rightarrow> hostname" where
  "entry_of p v =
     (if take 2 v = ''*.'' then new_hostname (drop 2 v) p (to4 p = []) True
      else new_hostname v p (to4 p = []) False)"

lemma parse_domains_entry:
  "\<forall>v \<in> set vs. 2 \<le> length v \<Longrightarrow> parse_domains p (to4 p = []) vs = Inr (map (entry_of p) vs)"
  by (induction vs) (auto simp: entry_of_def Let_def)

text \<open>
  C29. Round trip: a line written as an address and host names separated by single spaces is read
  back as one entry per name, in order, with the leading \<open>*.\<close> of a name turned into the wildcard
  flag, for every address the program accepts and names of at least two bytes.
\<close>

theorem parse_written_line:
  assumes "plain_word addr" "\<forall>v \<in> set vs. plain_word v \<and> 2 \<le> length v"
    and "CHR ''%'' \<notin> set addr"
    and "is_global_unicast (parse_ip addr) \<or> is_loopback (parse_ip addr)"
    and "\<not> ip_equal (parse_ip addr) (parse_ip ''fe00::'')"
  shows "parse_line (join_with (CHR '' '') (addr # vs)) = Inr (map (entry_of (parse_ip addr)) vs)"
proof -
  let ?s = "join_with (CHR '' '') (addr # vs)"
  have ws: "line_words ?s = addr # vs" by (rule line_words_join) (use assms in auto)
  have "?s \<noteq> []" "hd ?s = hd addr"
    using join_plain [of "addr # vs" "CHR '' ''"] assms(1,2) by auto
  moreover have "hd addr \<noteq> CHR ''#''" using assms(1) by (auto simp: plain_word_def)
  ultimately have "active_line ?s" using assms by (simp add: active_line_def line_ip_def ws)
  then show ?thesis using assms(2) by (simp add: parse_line_eq line_ip_def ws parse_domains_entry)
qed

theorem parse_written_line_witness:
  "parse_line (join_with (CHR '' '') (''127.0.0.1'' # [''ab'', ''*.cd'']))
     = Inr (map (entry_of (parse_ip ''127.0.0.1'')) [''ab'', ''*.cd''])"
proof (rule parse_written_line)
  show "is_global_unicast (parse_ip ''127.0.0.1'') \<or> is_loopback (parse_ip ''127.0.0.1'')"
    by code_simp
  show "\<not> ip_equal (parse_ip ''127.0.0.1'') (parse_ip ''fe00::'')" by code_simp
qed (simp_all add: plain_word_def is_space_def trim_space_same space_runes_def suffix_to_prefix)

section \<open>Lookup\<close>

lemma wildcard_match_iff:
  "wildcard_match name h \<longleftrightarrow>
     h_wildcard h \<and> (\<exists>label. CHR ''.'' \<notin> set label \<and> name = label @ ''.'' @ h_domain h)"
proof
  assume m: "wildcard_match name h"
  let ?cut = "length name - Suc (length (h_domain h))"
  from m have "name = take ?cut name @ ''.'' @ h_domain h"
    by (metis append_Cons append_Nil append_take_drop_id length_Cons wildcard_match_def)
  with m show "h_wildcard h \<and> (\<exists>label. CHR ''.'' \<notin> set label \<and> name = label @ ''.'' @ h_domain h)"
    by (auto simp: wildcard_match_def Let_def contains_char)
next
  assume "h_wildcard h \<and> (\<exists>label. CHR ''.'' \<notin> set label \<and> name = label @ ''.'' @ h_domain h)"
  then show "wildcard_match name h" by (auto simp: wildcard_match_def Let_def contains_char)
qed

text \<open>
  C31. The meaning of a lookup: the addresses found for a name are those of the entries that spell
  the name; only when there is none, those of the wildcard entries whose domain the name extends
  by exactly one label (where the README promises any subdomain).
\<close>

theorem find_hosts_meaning:
  "p \<in> set (hostlist_find_hosts hs name) \<longleftrightarrow>
     (\<exists>h \<in> set hs. \<not> h_wildcard h \<and> h_domain h = name \<and> h_ip h = p) \<or>
     \<not> (\<exists>h \<in> set hs. \<not> h_wildcard h \<and> h_domain h = name) \<and>
     (\<exists>h \<in> set hs. \<exists>label. h_wildcard h \<and> CHR ''.'' \<notin> set label \<and>
        name = label @ ''.'' @ h_domain h \<and> h_ip h = p)"
proof (cases "filter (exact_match name) hs = []")
  case True
  then have "\<not> (\<exists>h \<in> set hs. \<not> h_wildcard h \<and> h_domain h = name)"
    by (auto simp: filter_empty_conv exact_match_def)
  with True show ?thesis
    by (simp add: hostlist_find_hosts_def wildcard_match_iff) blast
next
  case False
  then have "\<exists>h \<in> set hs. \<not> h_wildcard h \<and> h_domain h = name"
    by (auto simp: filter_empty_conv exact_match_def)
  with False show ?thesis
    by (auto simp: hostlist_find_hosts_def exact_match_def)
qed

section \<open>The polling loop\<close>

text \<open>What a tick leaves behind: the metadata copy agrees with the object, the list is well-formed.\<close>

definition monitor_ok :: "hostsfile \<times> file_meta \<Rightarrow> bool" where
  "monitor_ok s \<longleftrightarrow> hosts_ok (hf_hosts (fst s)) \<and> hf_file (fst s) = snd s"

lemma new_hostlist_ok: "new_hostlist data = Inr hs \<Longrightarrow> hosts_ok hs"
  using load_lines_ok by (auto simp: new_hostlist_def hosts_ok_def)

lemma load_host_entries_ok:
  "load_host_entries read h = Inr (h', err) \<Longrightarrow> hosts_ok (hf_hosts h) \<Longrightarrow>
   hosts_ok (hf_hosts h') \<and> hf_file h' = hf_file h"
  by (auto simp: load_host_entries_def go_bind new_hostlist_ok split: option.splits)

lemma monitor_tick_ok:
  "monitor_tick stat read s = Inr s' \<Longrightarrow> monitor_ok s \<Longrightarrow>
   monitor_ok s' \<and> f_path (snd s') = f_path (snd s)"
  by (auto simp: monitor_tick_def monitor_ok_def go_bind Let_def dest!: load_host_entries_ok
      split: option.splits prod.splits if_splits)

lemma monitor_ticks_ok:
  "monitor_ticks ts s = Inr s' \<Longrightarrow> monitor_ok s \<Longrightarrow> monitor_ok s' \<and> f_path (snd s') = f_path (snd s)"
proof (induction ts s rule: monitor_ticks.induct)
  case (2 stat read ts s)
  then obtain s1 where s1: "monitor_tick stat read s = Inr s1" "monitor_ticks ts s1 = Inr s'"
    by (auto simp: go_bind)
  from monitor_tick_ok [OF s1(1) 2(3)] 2(1) [OF s1(1) s1(2)] show ?case by simp
qed simp

text \<open>Loading and polling keep the list of entries well-formed, whatever the file does.\<close>

lemma new_hostsfile_loaded:
  "new_hostsfile read path poll = Inr (Some h) \<Longrightarrow> hosts_ok (hf_hosts h) \<and> f_path (hf_file h) = path"
  by (auto simp: new_hostsfile_def Let_def go_bind hosts_ok_def dest!: load_host_entries_ok
      split: if_splits)

lemma monitor_run_ok:
  assumes "monitor_run ts h = Inr h'" "hosts_ok (hf_hosts h)"
  shows "hosts_ok (hf_hosts h') \<and> f_path (hf_file h') = f_path (hf_file h)"
  using assms monitor_ticks_ok [of ts "(h, hf_file h)"]
  by (auto simp: monitor_run_def go_bind monitor_ok_def split: if_splits)

lemma monitor_ticks_append:
  "monitor_ticks (ts @ us) s = bind_go (monitor_ticks ts s) (monitor_ticks us)"
proof (induction ts s rule: monitor_ticks.induct)
  case (2 stat read ts s)
  then show ?case by (cases "monitor_tick stat read s") auto
qed simp

text \<open>Ticks that see no new metadata, or cannot see any, change nothing.\<close>

definition unchanged_tick :: "file_meta \<Rightarrow> (int \<times> int) option \<times> (string \<Rightarrow> string option) \<Rightarrow> bool" where
  "unchanged_tick f t \<longleftrightarrow> fst t \<in> {None, Some (f_mtime f, f_size f)}"

lemma unchanged_ticks: "list_all (unchanged_tick f) us \<Longrightarrow> monitor_ticks us (h, f) = Inr (h, f)"
  by (induction us) (auto simp: unchanged_tick_def monitor_tick_def)

lemma polled_tick:
  assumes "map_option new_hostlist (read (f_path (hf_file h))) \<in> {None, Some (Inr hs)}" "hf_file h = f"
  shows "\<exists>h'. monitor_tick (Some (mt, sz)) read (h, f) = Inr (h', hf_file h') \<and>
    f_mtime (hf_file h') = mt \<and> f_size (hf_file h') = sz \<and>
    hf_hosts h' = (if f_mtime f = mt \<and> f_size f = sz \<or> read (f_path f) = None then hf_hosts h else hs)"
  using assms by (auto simp: monitor_tick_def load_host_entries_def Let_def)

text \<open>
  C32. Polling follows the file: after any number of ticks, a tick that sees new metadata and reads
  a file that parses replaces the whole list by the one parsed from the content and records the
  metadata; a tick that sees the metadata it knows does not read the file. Any further ticks that
  see the same metadata, or none because the file is gone, leave the list as it is, whatever they
  could read. In particular a file that could not be read when its metadata changed (the list then
  stays) is not read by the ticks that follow.
\<close>

theorem polling_follows_file:
  assumes "new_hostsfile read0 path poll = Inr (Some h)" "path \<noteq> []" "monitor_run ts h = Inr h1"
    and "map_option new_hostlist (read path) \<in> {None, Some (Inr hs)}"
    and "\<forall>(stat, read') \<in> set us. stat \<in> {None, Some (mt, sz)}"
  shows "\<exists>h2. monitor_run (ts @ (Some (mt, sz), read) # us) h = Inr h2 \<and>
    f_mtime (hf_file h2) = mt \<and> f_size (hf_file h2) = sz \<and>
    hf_hosts h2 = (if f_mtime (hf_file h1) = mt \<and> f_size (hf_file h1) = sz \<or> read path = None
                   then hf_hosts h1 else hs)"
proof -
  have h: "hosts_ok (hf_hosts h)" "f_path (hf_file h) = path" using new_hostsfile_loaded [OF assms(1)] by simp_all
  then have ts: "monitor_ticks ts (h, hf_file h) = Inr (h1, hf_file h1)" and p: "f_path (hf_file h1) = path"
    using assms(2,3) monitor_ticks_ok [of ts "(h, hf_file h)"] monitor_run_ok [OF assms(3)]
    by (auto simp: monitor_run_def go_bind monitor_ok_def)
  obtain h2 where h2: "monitor_tick (Some (mt, sz)) read (h1, hf_file h1) = Inr (h2, hf_file h2)"
      "f_mtime (hf_file h2) = mt" "f_size (hf_file h2) = sz"
      "hf_hosts h2 = (if f_mtime (hf_file h1) = mt \<and> f_size (hf_file h1) = sz \<or> read path = None
        then hf_hosts h1 else hs)"
    using polled_tick [of read h1 hs "hf_file h1" mt sz] assms(4) p by auto
  moreover have "list_all (unchanged_tick (hf_file h2)) us"
    using assms(5) h2 by (auto simp: unchanged_tick_def list_all_iff)
  ultimately show ?thesis
    using h(2) assms(2) ts by (simp add: monitor_run_def monitor_ticks_append unchanged_ticks)
qed

theorem polling_follows_file_witness:
  "\<exists>h2. monitor_run ([] @ (Some (3, 20), \<lambda>_. Some sample_hosts) # [(None, \<lambda>_. None), (Some (3, 20), \<lambda>_. Some ''#'')])
      \<lparr>hf_poll = 5, hf_hosts = [],
        hf_file = \<lparr>f_size = 0, f_path = ''/h'', f_mtime = - 62135596800 * 1000000000\<rparr>\<rparr> = Inr h2 \<and>
    f_mtime (hf_file h2) = 3 \<and> f_size (hf_file h2) = 20 \<and>
    hf_hosts h2 = sample_entries"
proof -
  let ?h = "\<lparr>hf_poll = 5, hf_hosts = [],
        hf_file = \<lparr>f_size = 0, f_path = ''/h'', f_mtime = - 62135596800 * 1000000000\<rparr>\<rparr>"
  have "new_hostsfile (\<lambda>_. Some ''#'') ''/h'' 5 = Inr (Some ?h)"
    by (simp add: new_hostsfile_def load_host_entries_def new_hostlist_def parse_line_def)
  moreover have "monitor_run [] ?h = Inr ?h" by (simp add: monitor_run_def)
  ultimately show ?thesis
    using polling_follows_file [of "\<lambda>_. Some ''#''" "''/h''" 5 ?h "[]" ?h "\<lambda>_. Some sample_hosts"
        sample_entries "[(None, \<lambda>_. None), (Some (3, 20), \<lambda>_. Some ''#'')]" 3 20] sample_hosts_list
    by simp
qed

definition sample_hostsfile :: hostsfile where
  "sample_hostsfile = \<lparr>hf_poll = 5, hf_hosts = [],
     hf_file = \<lparr>f_size = 0, f_path = ''/h'', f_mtime = 0\<rparr>\<rparr>"

text \<open>
  A tick that sees new metadata and can read the file replaces the whole list by the one read
  from the new content, and a following tick with the same metadata changes nothing.
\<close>

lemma tick_reloads_changed_file:
  assumes "f_mtime (hf_file h) \<noteq> mt \<or> f_size (hf_file h) \<noteq> sz"
    and "read (f_path (hf_file h)) = Some data" "new_hostlist data = Inr hs"
  shows "\<exists>s'. monitor_tick (Some (mt, sz)) read (h, hf_file h) = Inr s' \<and>
              hf_hosts (fst s') = hs \<and> monitor_tick (Some (mt, sz)) read' s' = Inr s'"
  using assms by (auto simp: monitor_tick_def load_host_entries_def Let_def)

text \<open>
  A failed read is not retried: a tick that sees new metadata but cannot read the file keeps
  the old list and records the metadata, so the next tick with the same metadata does not load
  the file even though it can now be read.
\<close>

lemma failed_reload_not_retried:
  assumes "f_mtime (hf_file h) \<noteq> mt \<or> f_size (hf_file h) \<noteq> sz"
    and "read (f_path (hf_file h)) = None"
  shows "\<exists>s'. monitor_tick (Some (mt, sz)) read (h, hf_file h) = Inr s' \<and>
              monitor_tick (Some (mt, sz)) read' s' = Inr s' \<and> hf_hosts (fst s') = hf_hosts h"
  using assms by (auto simp: monitor_tick_def load_host_entries_def Let_def)

section \<open>The interface the server uses\<close>

lemma find_hosts_address:
  assumes "hosts_ok (hf_hosts h)" "hostsfile_find_hosts h n = Inr ps" "p \<in> set ps"
  shows "length p = 16"
proof -
  from assms(2,3) have "\<exists>x \<in> set (hf_hosts h). h_ip x = p"
    by (auto simp: hostsfile_find_hosts_def hostlist_find_hosts_def Let_def split: if_splits)
  with assms(1) show ?thesis by (auto simp: hosts_ok_def host_ok_def)
qed

lemma first_reverse_dot:
  "fqdn_law L \<Longrightarrow> first_reverse L n hs \<noteq> [] \<Longrightarrow> has_suffix (first_reverse L n hs) ''.''"
  by (induction L n hs rule: first_reverse.induct) (auto simp: fqdn_dot split: if_splits)

interpretation hosts: hostfile hostsfile_find_hosts "hostsfile_find_reverse L"
  "\<lambda>h. hosts_ok (hf_hosts h) \<and> fqdn_law L" for L
proof (unfold_locales, goal_cases)
  case (2 h n ps p)
  then show ?case by (blast intro: find_hosts_address)
next
  case (3 n h)
  then have "trim_suffix n ''.'' = n" by (simp add: trim_suffix_def)
  then show ?case by (simp add: hostsfile_find_hosts_def)
next
  case (5 h n r)
  then show ?case by (auto simp: hostsfile_find_reverse_def intro: first_reverse_dot)
qed (simp_all add: hostsfile_find_hosts_def hostsfile_find_reverse_def)

text \<open>
  Records made from a well-formed hosts file answer their question: the name asked for, the
  class and TTL of hosts records, the type asked for (or any, for type ANY), four bytes in an A
  record and sixteen in an AAAA record.
\<close>

lemma hosts_records_answer_question:
  assumes "hosts_ok (hf_hosts h)"
    and "address_records (hostsfile_find_hosts h) t q n = Inr rs" "r \<in> set rs"
  shows "answers_question t q r"
  using assms(1) sample_fqdn_law hosts.address_records_answer [OF _ assms(2,3), of sample_lib] by simp

end
