(* ===== verification/Server_Msg.thy ===== *)
theory Server_Msg
  imports Dns_Types
begin

text \<open>
  Shaping a reply: fitting it to the client's buffer (\<open>Fit\<close>, \<open>server/msg.go\<close>) and shuffling its
  records (\<open>RoundRobin\<close>, \<open>server/server.go\<close>).
\<close>

section \<open>Fit\<close>

definition with_answers :: "msg \<Rightarrow> nat \<Rightarrow> msg" where
  "with_answers m k = m\<lparr>m_answer := take k (m_answer m)\<rparr>"

text \<open>
  The search loop. The code leaves it when \<open>min == max\<close>; it starts with \<open>min \<le> max\<close> and every
  round keeps that, so this is the test \<open>\<not> min < max\<close>. The message passed in has the full
  answer section, the code's \<open>original\<close>.
\<close>

function fit_search :: "dns_lib \<Rightarrow> msg \<Rightarrow> int \<Rightarrow> nat \<Rightarrow> nat \<Rightarrow> nat" where
  "fit_search L m sz mn mx =
     (if \<not> mn < mx then mx
      else (let mid = (mn + mx) div 2 in
            if msg_len L (with_answers m mid) < sz then fit_search L m sz (mn + 1) mx
            else fit_search L m sz mn mid))"
  by pat_completeness auto
termination
  by (relation "measure (\<lambda>(L, m, sz, mn, mx). mx - mn)") auto

declare fit_search.simps [simp del]

definition fit :: "dns_lib \<Rightarrow> msg \<Rightarrow> int \<Rightarrow> bool \<Rightarrow> msg \<times> bool" where
  "fit L m sz tcp =
     (let m = (if msg_len L m > sz then m\<lparr>m_extra := []\<rparr> else m) in
      if msg_len L m < sz then (m, False)
      else
        (let m = (if \<not> tcp then m\<lparr>m_truncated := True\<rparr> else m);
             mx = fit_search L m sz 0 (length (m_answer m));
             mx = (if mx > 1 then mx - 1 else mx)
         in (with_answers m mx, True)))"

lemma with_answers_simps [simp]:
  "m_answer (with_answers m k) = take k (m_answer m)" "m_extra (with_answers m k) = m_extra m"
  "m_truncated (with_answers m k) = m_truncated m" "m_id (with_answers m k) = m_id m"
  "m_rcode (with_answers m k) = m_rcode m" "m_question (with_answers m k) = m_question m"
  by (simp_all add: with_answers_def)

lemma with_answers_all: "length (m_answer m) \<le> k \<Longrightarrow> with_answers m k = m"
  by (simp add: with_answers_def)

lemma len_mono: "len_law L \<Longrightarrow> i \<le> j \<Longrightarrow> msg_len L (with_answers m i) \<le> msg_len L (with_answers m j)"
  by (simp add: len_law_def with_answers_def)

lemma len_truncated [simp]: "len_law L \<Longrightarrow> msg_len L (m\<lparr>m_truncated := b\<rparr>) = msg_len L m"
  by (simp add: len_law_def)

lemma len_truncated_answers [simp]:
  "len_law L \<Longrightarrow> msg_len L (with_answers (m\<lparr>m_truncated := b\<rparr>) k) = msg_len L (with_answers m k)"
proof -
  assume L: "len_law L"
  have "with_answers (m\<lparr>m_truncated := b\<rparr>) k = (with_answers m k)\<lparr>m_truncated := b\<rparr>"
    by (simp add: with_answers_def)
  with L show ?thesis by simp
qed

text \<open>
  The search finds the least number of answers with which the message does not fit: below the
  lower end everything fits, the upper end does not.
\<close>

lemma fit_search_least:
  assumes "len_law L" "mn \<le> mx" "\<forall>i < mn. msg_len L (with_answers m i) < sz"
    and "\<not> msg_len L (with_answers m mx) < sz"
  shows "fit_search L m sz mn mx \<le> mx \<and>
         (\<forall>i < fit_search L m sz mn mx. msg_len L (with_answers m i) < sz) \<and>
         \<not> msg_len L (with_answers m (fit_search L m sz mn mx)) < sz"
  using assms
proof (induction L m sz mn mx rule: fit_search.induct)
  case (1 L m sz mn mx)
  show ?case
  proof (cases "mn < mx")
    case False
    with "1.prems"(2) have "mn = mx" by simp
    with "1.prems" show ?thesis by (subst (1 2 3) fit_search.simps) simp
  next
    case True
    let ?mid = "(mn + mx) div 2"
    show ?thesis
    proof (cases "msg_len L (with_answers m ?mid) < sz")
      case fits: True
      have "msg_len L (with_answers m mn) < sz"
        using len_mono [OF "1.prems"(1), of mn ?mid m] True fits by linarith
      then have "\<forall>i < mn + 1. msg_len L (with_answers m i) < sz"
        using "1.prems"(3) by (auto simp: less_Suc_eq)
      with "1.IH"(1) [OF _ refl fits] True fits "1.prems" show ?thesis
        by (simp add: fit_search.simps [of L m sz mn mx])
    next
      case over: False
      with "1.IH"(2) [OF _ refl over] True "1.prems" show ?thesis
        by (fastforce simp: fit_search.simps [of L m sz mn mx])
    qed
  qed
qed

text \<open>The message once the additional section has been given up, if it has.\<close>

definition without_extra :: "dns_lib \<Rightarrow> msg \<Rightarrow> int \<Rightarrow> msg" where
  "without_extra L m sz = (if msg_len L m > sz then m\<lparr>m_extra := []\<rparr> else m)"

lemma without_extra_simps [simp]:
  "m_answer (without_extra L m sz) = m_answer m" "m_id (without_extra L m sz) = m_id m"
  "m_rcode (without_extra L m sz) = m_rcode m" "m_question (without_extra L m sz) = m_question m"
  "m_truncated (without_extra L m sz) = m_truncated m"
  by (simp_all add: without_extra_def)

lemma fit_overflow:
  assumes L: "len_law L" and "\<not> msg_len L (without_extra L m sz) < sz"
  shows "\<exists>k. k \<le> length (m_answer m) \<and>
    (\<forall>i < k. msg_len L (with_answers (without_extra L m sz) i) < sz) \<and>
    \<not> msg_len L (with_answers (without_extra L m sz) k) < sz \<and>
    fit L m sz tcp =
      (with_answers (if tcp then without_extra L m sz
                     else (without_extra L m sz)\<lparr>m_truncated := True\<rparr>)
         (if k > 1 then k - 1 else k), True)"
proof -
  define M0 where "M0 = without_extra L m sz"
  define M where "M = (if tcp then M0 else M0\<lparr>m_truncated := True\<rparr>)"
  define k where "k = fit_search L M sz 0 (length (m_answer m))"
  have eq: "msg_len L (with_answers M i) = msg_len L (with_answers M0 i)" for i
    using L by (simp add: M_def)
  have "with_answers M0 (length (m_answer m)) = M0" by (simp add: with_answers_all M0_def)
  with assms(2) have over: "\<not> msg_len L (with_answers M (length (m_answer m))) < sz"
    by (simp only: eq M0_def) simp
  have "k \<le> length (m_answer m) \<and> (\<forall>i < k. msg_len L (with_answers M i) < sz) \<and>
        \<not> msg_len L (with_answers M k) < sz"
    unfolding k_def by (rule fit_search_least [OF L _ _ over]) simp_all
  moreover have "fit L m sz tcp = (with_answers M (if k > 1 then k - 1 else k), True)"
    using assms(2) by (simp add: fit_def Let_def without_extra_def k_def M_def M0_def)
  ultimately show ?thesis by (intro exI [of _ k]) (simp add: eq, simp add: M_def M0_def)
qed

text \<open>
  \<open>Fit\<close> reports no overflow exactly when the message, with its additional section given up if
  the message was longer than the size, is shorter than the size; then nothing else changes.
\<close>

lemma fit_no_overflow:
  "(\<not> snd (fit L m sz tcp)) = (msg_len L (without_extra L m sz) < sz) \<and>
   (snd (fit L m sz tcp) \<or> fst (fit L m sz tcp) = without_extra L m sz)"
  by (auto simp: fit_def Let_def without_extra_def)

text \<open>
  C33. On overflow the search of \<open>Fit\<close> is exact whenever it keeps at least two answers or finds
  that two fit: the answers kept are a prefix of the original ones, the message with them is
  shorter than the size, and with one more answer it is not. Over UDP the truncation flag is set.
\<close>

theorem fit_keeps_longest_prefix:
  assumes "len_law L" "snd (fit L m sz tcp)"
    and "msg_len L (with_answers (without_extra L m sz) 1) < sz"
  shows "let m' = fst (fit L m sz tcp); k = length (m_answer m') in
         m_answer m' = take k (m_answer m) \<and> 1 \<le> k \<and>
         msg_len L m' < sz \<and>
         \<not> msg_len L (with_answers (without_extra L m sz) (k + 1)) < sz \<and>
         m_truncated m' = (\<not> tcp \<or> m_truncated m)"
proof -
  let ?m0 = "without_extra L m sz"
  have "\<not> msg_len L ?m0 < sz"
    using assms(2) by (auto simp: fit_def Let_def without_extra_def split: if_splits)
  from fit_overflow [OF assms(1) this, of tcp] obtain k where k: "k \<le> length (m_answer m)"
    "\<forall>i < k. msg_len L (with_answers ?m0 i) < sz" "\<not> msg_len L (with_answers ?m0 k) < sz"
    and eq: "fit L m sz tcp =
      (with_answers (if tcp then ?m0 else ?m0\<lparr>m_truncated := True\<rparr>) (if k > 1 then k - 1 else k), True)"
    by blast
  have "1 < k"
  proof (rule ccontr)
    assume "\<not> 1 < k"
    with len_mono [OF assms(1), of k 1 ?m0] assms(3) k(3) show False by simp
  qed
  moreover have "msg_len L (with_answers ?m0 (k - 1)) < sz" using k(2) \<open>1 < k\<close> by simp
  ultimately show ?thesis using k assms(1) by (simp add: eq Let_def)
qed

theorem fit_keeps_longest_prefix_witness:
  "let m = sample_m\<lparr>m_answer := replicate 4 sample_rr\<rparr>; m' = fst (fit sample_lib m 70 False);
       k = length (m_answer m') in
   m_answer m' = take k (m_answer m) \<and> 1 \<le> k \<and> msg_len sample_lib m' < 70 \<and>
   \<not> msg_len sample_lib (with_answers (without_extra sample_lib m 70) (k + 1)) < 70 \<and>
   m_truncated m' = (\<not> False \<or> m_truncated m)"
proof -
  let ?m = "sample_m\<lparr>m_answer := replicate 4 sample_rr\<rparr>"
  have "msg_len sample_lib ?m = 92"
    by (simp add: sample_msg_len sample_m_def new_msg_def)
  then have "snd (fit sample_lib ?m 70 False)"
    by (simp add: fit_def Let_def sample_msg_len sample_m_def new_msg_def)
  moreover have "msg_len sample_lib (with_answers (without_extra sample_lib ?m 70) 1) < 70"
    by (simp add: without_extra_def with_answers_def sample_msg_len sample_m_def new_msg_def)
  ultimately show ?thesis
    using fit_keeps_longest_prefix [of sample_lib ?m 70 False] by (simp only: Let_def sample_len_law simp_thms)
qed

text \<open>
  \<open>Fit\<close> may return a message that does not fit: when the first answer alone is too much, it
  is kept, although the message without it would have been shorter than the size.
\<close>

lemma fit_keeps_oversized_first_answer:
  assumes "len_law L" "m_answer m \<noteq> []"
    and "msg_len L (with_answers (without_extra L m sz) 0) < sz"
    and "\<not> msg_len L (with_answers (without_extra L m sz) 1) < sz"
  shows "snd (fit L m sz tcp) \<and> length (m_answer (fst (fit L m sz tcp))) = 1 \<and>
         \<not> msg_len L (fst (fit L m sz tcp)) < sz"
proof -
  let ?m0 = "without_extra L m sz"
  have len: "1 \<le> length (m_answer m)" using assms(2) by (cases "m_answer m") auto
  have "with_answers ?m0 (length (m_answer m)) = ?m0" by (simp add: with_answers_all)
  with len_mono [OF assms(1) len, of ?m0] assms(4) have "\<not> msg_len L ?m0 < sz" by simp
  from fit_overflow [OF assms(1) this, of tcp] obtain k where k:
    "\<forall>i < k. msg_len L (with_answers ?m0 i) < sz" "\<not> msg_len L (with_answers ?m0 k) < sz"
    and eq: "fit L m sz tcp =
      (with_answers (if tcp then ?m0 else ?m0\<lparr>m_truncated := True\<rparr>) (if k > 1 then k - 1 else k), True)"
    by blast
  have "\<not> 1 < k" using k(1) assms(4) by auto
  moreover have "k \<noteq> 0" using k(2) assms(3) by (cases k) auto
  ultimately have "k = 1" by simp
  with len assms show ?thesis by (simp add: eq)
qed

text \<open>
  A message exactly as long as the size counts as too long, although the size is a length the
  client accepts: over UDP it is sent truncated, over TCP it is reported as overflowing.
\<close>

lemma fit_exact_size_overflows:
  assumes "msg_len L m = sz"
  shows "snd (fit L m sz tcp) \<and> (tcp \<or> m_truncated (fst (fit L m sz tcp)))"
  using assms by (simp add: fit_def Let_def)

text \<open>
  What \<open>Fit\<close> returns is shorter than the size or has at most one answer left, and its answers are
  always a prefix of the original ones.
\<close>

lemma fit_result_bounded:
  assumes "len_law L"
  shows "(msg_len L (fst (fit L m sz tcp)) < sz \<or> length (m_answer (fst (fit L m sz tcp))) \<le> 1) \<and>
    (\<exists>k. m_answer (fst (fit L m sz tcp)) = take k (m_answer m))"
proof (cases "msg_len L (without_extra L m sz) < sz")
  case True
  then have "fst (fit L m sz tcp) = without_extra L m sz"
    by (auto simp: fit_def Let_def without_extra_def)
  with True show ?thesis by (auto intro: exI [of _ "length (m_answer m)"])
next
  case False
  let ?m0 = "without_extra L m sz"
  from fit_overflow [OF assms False, of tcp] obtain k where
    "\<forall>i < k. msg_len L (with_answers ?m0 i) < sz"
    and eq: "fit L m sz tcp =
      (with_answers (if tcp then ?m0 else ?m0\<lparr>m_truncated := True\<rparr>) (if k > 1 then k - 1 else k), True)"
    by blast
  then have "k > 1 \<Longrightarrow> msg_len L (with_answers ?m0 (k - 1)) < sz" by simp
  with assms eq show ?thesis by (cases "k > 1") auto
qed

section \<open>Round robin\<close>

definition swap :: "nat \<Rightarrow> nat \<Rightarrow> 'a list \<Rightarrow> 'a list" where
  "swap i j xs = xs[i := xs ! j, j := xs ! i]"

text \<open>
  \<open>rand n\<close> is the \<open>n\<close>-th number drawn from \<open>dns.Id\<close>. The loop draws one for its guard, which it
  evaluates anew in every round, and two in its body; it makes at most four rounds per record.
\<close>

function shuffle_loop :: "(nat \<Rightarrow> 16 word) \<Rightarrow> nat \<Rightarrow> nat \<Rightarrow> nat \<Rightarrow> 'a list \<Rightarrow> 'a list" where
  "shuffle_loop rand l j n rrs =
     (if j < l * (unat (rand n) mod 4 + 1) then
        (let q = unat (rand (n + 1)) mod l;
             p = unat (rand (n + 2)) mod l;
             p = (if q = p then (p + 1) mod l else p)
         in shuffle_loop rand l (j + 1) (n + 3) (swap q p rrs))
      else rrs)"
  by pat_completeness auto
termination
proof (relation "measure (\<lambda>(rand, l, j, n, rrs). 4 * l - j)", goal_cases)
  case (2 rand l j n rrs q p p')
  have "unat (rand n) mod 4 + 1 \<le> 4" by (simp add: Suc_leI)
  then have "l * (unat (rand n) mod 4 + 1) \<le> 4 * l"
    by (metis mult.commute mult_le_mono2)
  with 2(1) have "j < 4 * l" by linarith
  then show ?case by simp
qed simp

declare shuffle_loop.simps [simp del]

definition round_robin :: "bool \<Rightarrow> (nat \<Rightarrow> 16 word) \<Rightarrow> rr list \<Rightarrow> rr list" where
  "round_robin enabled rand rrs =
     (if \<not> enabled then rrs
      else if 1 < length (filter (\<lambda>r. rr_type r = type_CNAME) rrs) then rrs
      else if length rrs = 2 then (if unat (rand 0) mod 2 = 0 then swap 0 1 rrs else rrs)
      else shuffle_loop rand (length rrs) 0 0 rrs)"

lemma mset_swap': "i < length xs \<Longrightarrow> j < length xs \<Longrightarrow> mset (swap i j xs) = mset xs"
  by (simp add: swap_def mset_swap)

lemma length_swap [simp]: "length (swap i j xs) = length xs"
  by (simp add: swap_def)

lemma shuffle_loop_mset: "l = length rrs \<Longrightarrow> mset (shuffle_loop rand l j n rrs) = mset rrs"
proof (induction rand l j n rrs rule: shuffle_loop.induct)
  case (1 rand l j n rrs)
  show ?case
  proof (cases "j < l * (unat (rand n) mod 4 + 1)")
    case True
    then have l: "0 < l" by (cases l) auto
    let ?q = "unat (rand (n + 1)) mod l"
    let ?p0 = "unat (rand (n + 2)) mod l"
    let ?p = "if ?q = ?p0 then (?p0 + 1) mod l else ?p0"
    have "?q < length rrs" "?p < length rrs" using l "1.prems" by auto
    then have "mset (swap ?q ?p rrs) = mset rrs" by (rule mset_swap')
    moreover have "mset (shuffle_loop rand l (j + 1) (n + 3) (swap ?q ?p rrs)) = mset (swap ?q ?p rrs)"
      using "1.IH" [OF True refl refl refl] "1.prems" by simp
    ultimately show ?thesis
      using True by (subst shuffle_loop.simps) (simp add: Let_def del: One_nat_def add_2_eq_Suc')
  next
    case False
    then show ?thesis by (simp add: shuffle_loop.simps [of rand l j n rrs])
  qed
qed

lemma round_robin_mset: "mset (round_robin b rnd rrs) = mset rrs"
  by (auto simp: round_robin_def shuffle_loop_mset mset_swap')

text \<open>
  C35. Round robin ends for every sequence of random numbers and only reorders: the records are
  the same with the same multiplicities, and an answer with more than one CNAME, or with the
  option off, keeps its order.
\<close>

theorem round_robin_permutes:
  "mset (round_robin enabled rand rrs) = mset rrs \<and>
   (enabled \<and> length (filter (\<lambda>r. rr_type r = type_CNAME) rrs) \<le> 1
    \<or> round_robin enabled rand rrs = rrs)"
  using round_robin_mset by (auto simp: round_robin_def)

end
