(* ===== verification/Server_Config.thy ===== *)
theory Server_Config
  imports Dns_Types
begin

text \<open>
  The configuration of the server (\<open>server/config.go\<close>): the fields the program reads after start,
  the defaults taken from \<open>/etc/resolv.conf\<close>, the checks made before the server starts, and the
  joining of a name with a search domain. The counters of \<open>server/stats.go\<close> are here too.
\<close>

section \<open>Configuration\<close>

text \<open>
  \<open>cfg_stub\<close> is the pointer to the map of stub zones, \<open>None\<close> when it is nil. The read timeout is
  handed to the DNS client only and is left out, as are the fields that no code reads.
\<close>

record config =
  cfg_dns_addr :: string
  cfg_systemd :: bool
  cfg_default_resolver :: bool
  cfg_search_domains :: "string list"
  cfg_enable_search :: bool
  cfg_hostsfile :: string
  cfg_poll_interval :: int
  cfg_round_robin :: bool
  cfg_nameservers :: "string list"
  cfg_no_rec :: bool
  cfg_ttl :: "32 word"
  cfg_hosts_ttl :: "32 word"
  cfg_rcache :: int
  cfg_rcache_ttl :: int
  cfg_rstale_ttl :: int
  cfg_rcache_ttl_from_resp :: bool
  cfg_rcache_ttl_max :: int
  cfg_rcache_non_negative :: bool
  cfg_fwd_ndots :: int
  cfg_ndots :: int
  cfg_stub :: "(string, string list) fmap option"

text \<open>What the DNS library reads from \<open>/etc/resolv.conf\<close>; \<open>None\<close> below is a file it cannot read.\<close>

record client_config =
  cc_servers :: "string list"
  cc_search :: "string list"
  cc_port :: string
  cc_ndots :: int

definition resolv_conf :: "dns_lib \<Rightarrow> client_config option \<Rightarrow> bool \<Rightarrow> config \<Rightarrow> config option" where
  "resolv_conf L rc ndots_set c =
     (case rc of
        None \<Rightarrow> None
      | Some r \<Rightarrow>
          (let c = (if length (cfg_nameservers c) = 0
                    then c\<lparr>cfg_nameservers :=
                             cfg_nameservers c @ map (\<lambda>s. join_host_port s (cc_port r)) (cc_servers r)\<rparr>
                    else c);
               c = (if \<not> ndots_set \<and> cc_ndots r \<noteq> 1 then c\<lparr>cfg_ndots := cc_ndots r\<rparr> else c);
               c = (if cfg_enable_search c \<and> length (cfg_search_domains c) = 0
                    then c\<lparr>cfg_search_domains :=
                             cfg_search_domains c @ map (\<lambda>s. fqdn L (to_lower s)) (cc_search r)\<rparr>
                    else c)
           in Some c))"

datatype config_error =
    ListenEmpty
  | NoNameservers
  | RCacheNegative
  | RCacheTtlNotPositive
  | RStaleTtlNegative
  | RCacheTtlMaxNegative
  | NdotsNotPositive
  | FwdNdotsNegative

definition check_config :: "config \<Rightarrow> config_error + config" where
  "check_config c =
     (if cfg_dns_addr c = [] then Inl ListenEmpty
      else if \<not> cfg_no_rec c \<and> length (cfg_nameservers c) = 0 then Inl NoNameservers
      else
        (let c = (if cfg_enable_search c \<and> length (cfg_search_domains c) = 0
                  then c\<lparr>cfg_enable_search := False\<rparr> else c) in
         if cfg_rcache c < 0 then Inl RCacheNegative
         else if cfg_rcache_ttl c \<le> 0 then Inl RCacheTtlNotPositive
         else if cfg_rstale_ttl c < 0 then Inl RStaleTtlNegative
         else if cfg_rcache_ttl_max c < 0 then Inl RCacheTtlMaxNegative
         else if cfg_ndots c \<le> 0 then Inl NdotsNotPositive
         else if cfg_fwd_ndots c < 0 then Inl FwdNdotsNegative
         else Inr (c\<lparr>cfg_ttl := 360, cfg_hosts_ttl := 10, cfg_stub := Some fmempty\<rparr>)))"

definition append_domain :: "dns_lib \<Rightarrow> string \<Rightarrow> string \<Rightarrow> string" where
  "append_domain L s1 s2 =
     (let s2 = (if length s2 > 0 \<and> has_prefix s2 ''.'' then trim_left s2 ''.'' else s2)
      in fqdn L s1 @ fqdn L s2)"

section \<open>Counters\<close>

datatype counter =
    ForwardCount
  | StubForwardCount
  | LookupCount
  | RequestCount
  | DnssecOkCount
  | NameErrorCount
  | RefusedCount
  | NoDataCount
  | DnssecCacheMiss
  | CacheMiss
  | CacheHit
  | StaleCacheHit
  | RequestFail

text \<open>There are thirteen, in the order of their declaration.\<close>

instantiation counter :: enum
begin

definition enum_counter :: "counter list" where
  "enum_counter =
     [ForwardCount, StubForwardCount, LookupCount, RequestCount, DnssecOkCount, NameErrorCount,
      RefusedCount, NoDataCount, DnssecCacheMiss, CacheMiss, CacheHit, StaleCacheHit, RequestFail]"

definition enum_all_counter :: "(counter \<Rightarrow> bool) \<Rightarrow> bool" where
  "enum_all_counter P = list_all P Enum.enum"

definition enum_ex_counter :: "(counter \<Rightarrow> bool) \<Rightarrow> bool" where
  "enum_ex_counter P = list_ex P Enum.enum"

lemma counter_listed: "(k :: counter) \<in> set Enum.enum"
  by (cases k) (simp_all add: enum_counter_def)

instance
proof
  show "(UNIV :: counter set) = set Enum.enum" using counter_listed by blast
  show "distinct (Enum.enum :: counter list)" by (simp add: enum_counter_def)
  show "Enum.enum_all P \<longleftrightarrow> Ball UNIV P" for P :: "counter \<Rightarrow> bool"
    using counter_listed by (auto simp: enum_all_counter_def list_all_iff)
  show "Enum.enum_ex P \<longleftrightarrow> Bex UNIV P" for P :: "counter \<Rightarrow> bool"
    using counter_listed by (auto simp: enum_ex_counter_def list_ex_iff)
qed

end

text \<open>
  The \<open>Counter\<close> interface. The package starts with counters that count nothing; the \<open>init\<close> of
  \<open>stats/graphite.go\<close> replaces them at start by counters of the metrics library.
\<close>

locale counters =
  fixes inc :: "'c \<Rightarrow> int \<Rightarrow> 'c" and count :: "'c \<Rightarrow> int" and weight :: int
  assumes count_inc: "count (inc c i) = count c + weight * i"
begin

lemma count_foldl: "count (foldl inc c is) = count c + weight * sum_list is"
  by (induction "is" arbitrary: c) (simp_all add: count_inc algebra_simps)

end

definition nop_inc :: "unit \<Rightarrow> int \<Rightarrow> unit" where
  "nop_inc c i = c"

definition nop_count :: "unit \<Rightarrow> int" where
  "nop_count c = 0"

interpretation nop: counters nop_inc nop_count 0
  by unfold_locales (simp add: nop_count_def)

text \<open>
  The counters in use, all thirteen; a counter of the metrics library adds what it is given.
  (It is a 64-bit counter; the model does not wrap, which would take 2^63 events.)
\<close>

type_synonym stats = "counter \<Rightarrow> int"

definition add_count :: "counter \<Rightarrow> int \<Rightarrow> stats \<Rightarrow> stats" where
  "add_count k i st = st(k := st k + i)"

interpretation collected: counters "\<lambda>st i. add_count k i st" "\<lambda>st. st k" 1 for k
  by unfold_locales (simp add: add_count_def)

abbreviation inc :: "counter \<Rightarrow> stats \<Rightarrow> stats" where
  "inc k \<equiv> add_count k 1"

lemma inc_simps [simp]: "inc k st k = st k + 1" "k \<noteq> j \<Longrightarrow> inc k st j = st j"
  by (simp_all add: add_count_def)

end
