(* ===== verification/Startup.thy ===== *)
theory Startup
  imports Server_Config
begin

text \<open>
  From the command line to the configuration (\<open>main.go\<close>): validation of addresses, the lists of
  name servers and search domains, the stub zones, and the order in which the configuration is
  assembled, completed from \<open>/etc/resolv.conf\<close> and checked. \<open>log.Fatal\<close> ends the program; it is
  the left case of the results.
\<close>

section \<open>Addresses\<close>

datatype startup_error =
    BadHostPort string
  | BadIP string
  | BadPort string
  | BadSearchDomain string
  | BadStubzone string
  | BadStubDomain string
  | BadConfig config_error

definition validate_host_port :: "string \<Rightarrow> startup_error option" where
  "validate_host_port hp =
     (case split_host_port hp of
        None \<Rightarrow> Some (BadHostPort hp)
      | Some (host, port) \<Rightarrow>
          if parse_ip host = [] then Some (BadIP host)
          else (let p = atoi port in if p < 1 \<or> p > 65535 then Some (BadPort port) else None))"

definition with_port :: "string \<Rightarrow> string" where
  "with_port hp =
     (if has_suffix hp '']'' then hp @ '':53''
      else if \<not> contains_str hp '':'' then hp @ '':53''
      else hp)"

text \<open>A validated address, with the default port where it names none.\<close>

definition server_address :: "string \<Rightarrow> startup_error + string" where
  "server_address s =
     (let hp = with_port s in
      case validate_host_port hp of None \<Rightarrow> Inr hp | Some e \<Rightarrow> Inl e)"

section \<open>Lists on the command line\<close>

fun collect_addresses :: "string list \<Rightarrow> startup_error + string list" where
  "collect_addresses [] = Inr []"
| "collect_addresses (h # hs) =
     (case server_address (trim_space h) of
        Inl e \<Rightarrow> Inl e
      | Inr hp \<Rightarrow> (case collect_addresses hs of Inl e \<Rightarrow> Inl e | Inr hps \<Rightarrow> Inr (hp # hps)))"

definition parse_nameservers :: "string \<Rightarrow> startup_error + string list" where
  "parse_nameservers ns = (if ns = [] then Inr [] else collect_addresses (split_on (CHR '','') ns))"

fun collect_domains :: "dns_lib \<Rightarrow> string list \<Rightarrow> startup_error + string list" where
  "collect_domains L [] = Inr []"
| "collect_domains L (d # ds) =
     (if count_label L d < 2 then Inl (BadSearchDomain d)
      else (case collect_domains L ds of
              Inl e \<Rightarrow> Inl e
            | Inr rest \<Rightarrow> Inr (fqdn L (to_lower (trim_space d)) # rest)))"

definition parse_search_domains :: "dns_lib \<Rightarrow> string \<Rightarrow> startup_error + string list" where
  "parse_search_domains L sd = (if sd = [] then Inr [] else collect_domains L (split_on (CHR '','') sd))"

section \<open>Stub zones\<close>

type_synonym zones = "(string, string list) fmap"

text \<open>\<open>stubmap[sdomain] = append(stubmap[sdomain], hostPort)\<close>.\<close>

definition add_stub :: "string \<Rightarrow> string \<Rightarrow> zones \<Rightarrow> zones" where
  "add_stub z hp m = fmupd z ((case fmlookup m z of Some hs \<Rightarrow> hs | None \<Rightarrow> []) @ [hp]) m"

fun add_stub_domains :: "dns_lib \<Rightarrow> string \<Rightarrow> string list \<Rightarrow> zones \<Rightarrow> startup_error + zones" where
  "add_stub_domains L hp [] m = Inr m"
| "add_stub_domains L hp (d # ds) m =
     (if count_label L d < 1 then Inl (BadStubDomain d)
      else add_stub_domains L hp ds (add_stub (fqdn L (trim_space d)) hp m))"

fun add_stub_hosts ::
  "dns_lib \<Rightarrow> string list \<Rightarrow> string list \<Rightarrow> zones \<Rightarrow> startup_error + zones"
where
  "add_stub_hosts L ds [] m = Inr m"
| "add_stub_hosts L ds (h # hs) m =
     (case server_address (trim_space h) of
        Inl e \<Rightarrow> Inl e
      | Inr hp \<Rightarrow>
          (case add_stub_domains L hp ds m of
             Inl e \<Rightarrow> Inl e
           | Inr m' \<Rightarrow> add_stub_hosts L ds hs m'))"

fun parse_stubzones :: "dns_lib \<Rightarrow> string list \<Rightarrow> zones \<Rightarrow> startup_error + zones" where
  "parse_stubzones L [] m = Inr m"
| "parse_stubzones L (sz # szs) m =
     (let segments = split_on (CHR ''/'') sz in
      if length segments \<noteq> 2 \<or> length (segments ! 0) = 0 \<or> length (segments ! 1) = 0
      then Inl (BadStubzone sz)
      else
        (case add_stub_hosts L (split_on (CHR '','') (segments ! 0))
                (split_on (CHR '','') (segments ! 1)) m of
           Inl e \<Rightarrow> Inl e
         | Inr m' \<Rightarrow> parse_stubzones L szs m'))"

section \<open>Assembling the configuration\<close>

text \<open>
  The command line: the flags that are parsed here, and the configuration with every other field
  as its flag gives it. \<open>cl_append_search\<close> is the deprecated flag, when it is set.
\<close>

record cli =
  cl_listen :: string
  cl_nameservers :: string
  cl_search_domains :: string
  cl_stubzones :: "string list"
  cl_append_search :: "bool option"
  cl_enable_search :: bool
  cl_ndots_set :: bool
  cl_flags :: config

text \<open>The part before \<open>/etc/resolv.conf\<close> is touched, and the part after.\<close>

definition read_flags :: "dns_lib \<Rightarrow> cli \<Rightarrow> startup_error + config" where
  "read_flags L cl =
     (case parse_nameservers (cl_nameservers cl) of Inl e \<Rightarrow> Inl e | Inr nameservers \<Rightarrow>
     (case parse_search_domains L (cl_search_domains cl) of Inl e \<Rightarrow> Inl e | Inr search_domains \<Rightarrow>
     (case server_address (cl_listen cl) of Inl e \<Rightarrow> Inl e | Inr listen \<Rightarrow>
       Inr ((cl_flags cl)
              \<lparr>cfg_dns_addr := listen, cfg_nameservers := nameservers,
               cfg_search_domains := search_domains,
               cfg_enable_search := (case cl_append_search cl of Some b \<Rightarrow> b | None \<Rightarrow> cl_enable_search cl),
               cfg_ttl := 0, cfg_hosts_ttl := 0, cfg_stub := None\<rparr>))))"

definition complete_config ::
  "dns_lib \<Rightarrow> cli \<Rightarrow> client_config option \<Rightarrow> config \<Rightarrow> startup_error + config"
where
  "complete_config L cl rc config =
     (let config = (case resolv_conf L rc (cl_ndots_set cl) config of
                      Some c \<Rightarrow> c | None \<Rightarrow> config)
      in case check_config config of
           Inl e \<Rightarrow> Inl (BadConfig e)
         | Inr config \<Rightarrow>
             if length (cl_stubzones cl) > 0 then
               (case parse_stubzones L (cl_stubzones cl) fmempty of
                  Inl e \<Rightarrow> Inl e
                | Inr zones \<Rightarrow> Inr (config\<lparr>cfg_stub := Some zones\<rparr>))
             else Inr config)"

definition start :: "dns_lib \<Rightarrow> cli \<Rightarrow> client_config option \<Rightarrow> startup_error + config" where
  "start L cl rc =
     (case read_flags L cl of Inl e \<Rightarrow> Inl e | Inr config \<Rightarrow> complete_config L cl rc config)"

section \<open>What an accepted configuration looks like\<close>

lemma sum_case_Inr:
  "(case x of Inl e \<Rightarrow> Inl (g e) | Inr y \<Rightarrow> f y) = Inr z \<longleftrightarrow> (\<exists>y. x = Inr y \<and> f y = Inr z)"
  by (cases x) auto

lemma server_address_valid: "server_address s = Inr hp \<Longrightarrow> validate_host_port hp = None"
  by (auto simp: server_address_def Let_def split: option.splits)

lemma collect_addresses_valid:
  "collect_addresses hs = Inr hps \<Longrightarrow> hp \<in> set hps \<Longrightarrow> validate_host_port hp = None"
  by (induction hs arbitrary: hps) (auto dest: server_address_valid split: sum.splits)

lemma collect_domains_absolute:
  "collect_domains L ds = Inr rs \<Longrightarrow> fqdn_law L \<Longrightarrow> r \<in> set rs \<Longrightarrow> has_suffix r ''.''"
  by (induction ds arbitrary: rs) (auto simp: fqdn_dot split: if_splits sum.splits)

text \<open>Every zone is an absolute name and has at least one server, all of them valid.\<close>

definition zones_ok :: "zones \<Rightarrow> bool" where
  "zones_ok m \<longleftrightarrow>
     (\<forall>z hs. fmlookup m z = Some hs \<longrightarrow>
        has_suffix z ''.'' \<and> hs \<noteq> [] \<and> (\<forall>h \<in> set hs. validate_host_port h = None))"

lemma zones_ok_add:
  "zones_ok m \<Longrightarrow> has_suffix z ''.'' \<Longrightarrow> validate_host_port hp = None \<Longrightarrow> zones_ok (add_stub z hp m)"
  by (cases "fmlookup m z") (auto simp: zones_ok_def add_stub_def)

lemma zones_ok_domains:
  "fqdn_law L \<Longrightarrow> validate_host_port hp = None \<Longrightarrow> zones_ok m \<Longrightarrow>
   add_stub_domains L hp ds m = Inr m' \<Longrightarrow> zones_ok m'"
proof (induction ds arbitrary: m)
  case (Cons d ds)
  from Cons.IH [OF Cons.prems(1,2) zones_ok_add [OF Cons.prems(3) fqdn_dot [OF Cons.prems(1)] Cons.prems(2)]]
    Cons.prems(4)
  show ?case by (auto split: if_splits)
qed simp

lemma zones_ok_hosts:
  "fqdn_law L \<Longrightarrow> zones_ok m \<Longrightarrow> add_stub_hosts L ds hs m = Inr m' \<Longrightarrow> zones_ok m'"
  by (induction hs arbitrary: m)
    (auto split: sum.splits dest: server_address_valid intro: zones_ok_domains)

lemma zones_ok_stubzones:
  "fqdn_law L \<Longrightarrow> zones_ok m \<Longrightarrow> parse_stubzones L szs m = Inr m' \<Longrightarrow> zones_ok m'"
  by (induction szs arbitrary: m)
    (auto simp: Let_def split: if_splits sum.splits dest: zones_ok_hosts)

lemma check_config_accepts:
  assumes "check_config c = Inr c'"
  shows "cfg_no_rec c' \<or> cfg_nameservers c' \<noteq> []" "cfg_nameservers c' = cfg_nameservers c"
    and "cfg_enable_search c' \<Longrightarrow> cfg_search_domains c' \<noteq> []" "0 \<le> cfg_rcache c'"
    and "0 < cfg_rcache_ttl c'" "0 \<le> cfg_rstale_ttl c'" "0 < cfg_ndots c'" "0 \<le> cfg_fwd_ndots c'"
    and "cfg_stub c' = Some fmempty" "cfg_hosts_ttl c' = 10" "cfg_dns_addr c' = cfg_dns_addr c"
    and "0 \<le> cfg_rcache_ttl_max c'" "cfg_ttl c' = 360"
  using assms by (auto simp: check_config_def Let_def split: if_splits)

definition accepted_config :: "config \<Rightarrow> bool" where
  "accepted_config C \<longleftrightarrow>
     validate_host_port (cfg_dns_addr C) = None \<and>
     (cfg_no_rec C \<or> cfg_nameservers C \<noteq> []) \<and>
     (cfg_enable_search C \<longrightarrow> cfg_search_domains C \<noteq> []) \<and>
     0 \<le> cfg_rcache C \<and> 0 < cfg_rcache_ttl C \<and> 0 \<le> cfg_rstale_ttl C \<and> 0 \<le> cfg_rcache_ttl_max C \<and>
     0 < cfg_ndots C \<and> 0 \<le> cfg_fwd_ndots C \<and> cfg_hosts_ttl C = 10 \<and> cfg_ttl C = 360 \<and>
     (\<exists>zones. cfg_stub C = Some zones \<and> zones_ok zones)"

lemma resolv_conf_addr: "resolv_conf L rc b c = Some c' \<Longrightarrow> cfg_dns_addr c' = cfg_dns_addr c"
  by (auto simp: resolv_conf_def Let_def split: option.splits)

lemma read_flags_listen: "read_flags L cl = Inr c \<Longrightarrow> server_address (cl_listen cl) = Inr (cfg_dns_addr c)"
  by (auto simp: read_flags_def split: sum.splits)

lemma complete_config_Inr:
  assumes "complete_config L cl rc c = Inr C"
  obtains C1 where "check_config (case resolv_conf L rc (cl_ndots_set cl) c of Some c \<Rightarrow> c | None \<Rightarrow> c) = Inr C1"
    "C = C1 \<or> (\<exists>zones. parse_stubzones L (cl_stubzones cl) fmempty = Inr zones \<and>
                C = C1\<lparr>cfg_stub := Some zones\<rparr>)"
  using assms by (auto simp: complete_config_def Let_def split: sum.splits if_splits)

lemma start_accepted:
  assumes "start L cl rc = Inr C" "fqdn_law L"
  shows "accepted_config C"
proof -
  obtain c where c: "read_flags L cl = Inr c" "complete_config L cl rc c = Inr C"
    using assms(1) by (auto simp: start_def split: sum.splits)
  obtain C1 where check: "check_config (case resolv_conf L rc (cl_ndots_set cl) c of Some c \<Rightarrow> c | None \<Rightarrow> c) = Inr C1"
      and C: "C = C1 \<or> (\<exists>zones. parse_stubzones L (cl_stubzones cl) fmempty = Inr zones \<and>
                C = C1\<lparr>cfg_stub := Some zones\<rparr>)"
    by (rule complete_config_Inr [OF c(2)])
  have addr: "cfg_dns_addr C1 = cfg_dns_addr c"
    using check_config_accepts(11) [OF check] resolv_conf_addr by (auto split: option.splits)
  have empty: "zones_ok fmempty" by (simp add: zones_ok_def)
  have "accepted_config C1"
    using check_config_accepts [OF check] server_address_valid [OF read_flags_listen [OF c(1)]] addr empty
    by (simp add: accepted_config_def)
  with C zones_ok_stubzones [OF assms(2) empty] show ?thesis
    by (auto simp: accepted_config_def)
qed

text \<open>
  C36. A configuration with which the server starts is well-formed: a valid listening address; name
  servers unless recursion is off; search domains where search is on; capacities, times and dot
  counts in range; and a map of stub zones in which every zone is an absolute name with at least
  one server, each an IP address with a port between 1 and 65535.
\<close>

theorem started_config_accepted:
  assumes "start L cl rc = Inr C" "fqdn_law L"
  shows "accepted_config C"
  by (rule start_accepted [OF assms])

definition sample_cli :: cli where
  "sample_cli =
     \<lparr>cl_listen = ''127.0.0.1'', cl_nameservers = ''10.0.0.1,10.0.0.2:5353'', cl_search_domains = [],
      cl_stubzones = [''a.b/10.0.0.3''], cl_append_search = None, cl_enable_search = False,
      cl_ndots_set = True,
      cl_flags = \<lparr>cfg_dns_addr = [], cfg_systemd = False, cfg_default_resolver = True,
        cfg_search_domains = [], cfg_enable_search = False, cfg_hostsfile = [], cfg_poll_interval = 0,
        cfg_round_robin = False, cfg_nameservers = [], cfg_no_rec = False, cfg_ttl = 0, cfg_hosts_ttl = 0,
        cfg_rcache = 10, cfg_rcache_ttl = 60, cfg_rstale_ttl = 0, cfg_rcache_ttl_from_resp = False,
        cfg_rcache_ttl_max = 0, cfg_rcache_non_negative = False, cfg_fwd_ndots = 0, cfg_ndots = 1,
        cfg_stub = None\<rparr>\<rparr>"

definition sample_started :: config where
  "sample_started =
     (cl_flags sample_cli)\<lparr>cfg_dns_addr := ''127.0.0.1:53'',
        cfg_nameservers := [''10.0.0.1:53'', ''10.0.0.2:5353''], cfg_ttl := 360, cfg_hosts_ttl := 10,
        cfg_stub := Some (fmupd ''a.b.'' [''10.0.0.3:53''] fmempty)\<rparr>"

lemma sample_start: "start sample_lib sample_cli None = Inr sample_started"
proof -
  have ns: "parse_nameservers ''10.0.0.1,10.0.0.2:5353'' = Inr [''10.0.0.1:53'', ''10.0.0.2:5353'']"
    and listen: "server_address ''127.0.0.1'' = Inr ''127.0.0.1:53''"
    by code_simp+
  have "server_address (trim_space ''10.0.0.3'') = Inr ''10.0.0.3:53''" "trim_space ''a.b'' = ''a.b''"
    by code_simp+
  then have zones: "parse_stubzones sample_lib [''a.b/10.0.0.3''] fmempty
      = Inr (fmupd ''a.b.'' [''10.0.0.3:53''] fmempty)"
    by (simp add: sample_lib_def sample_fqdn_def has_suffix_drop add_stub_def)
  show ?thesis
    by (simp add: start_def read_flags_def complete_config_def sample_cli_def ns listen zones parse_search_domains_def resolv_conf_def
        check_config_def sample_started_def Let_def del: parse_stubzones.simps)
qed

theorem started_config_accepted_witness: "accepted_config sample_started"
  by (rule started_config_accepted [OF sample_start]) simp

text \<open>
  An IP address without a port is accepted and gets port 53: an IPv4 address as it is, an IPv6
  address in brackets; the address kept is the one that \<open>net.JoinHostPort\<close> makes of the two.
\<close>

lemma bare_address_gets_port_53:
  assumes "parse_ip host \<noteq> []" "CHR ''['' \<notin> set host" "CHR '']'' \<notin> set host"
  shows "server_address (if CHR '':'' \<in> set host then ''['' @ host @ '']'' else host)
           = Inr (join_host_port host ''53'')"
proof -
  let ?s = "if CHR '':'' \<in> set host then ''['' @ host @ '']'' else host"
  have port: "with_port ?s = join_host_port host ''53''"
  proof (cases "CHR '':'' \<in> set host")
    case True
    moreover have "has_suffix (''['' @ host @ '']'') '']''"
      unfolding has_suffix_iff by (rule exI [of _ "''['' @ host"]) simp
    ultimately show ?thesis by (simp add: with_port_def join_host_port_def)
  next
    case False
    moreover have "\<not> has_suffix host '']''" using assms(3) by (auto simp: has_suffix_iff)
    ultimately show ?thesis by (simp add: with_port_def join_host_port_def contains_char)
  qed
  have "atoi ''53'' = 53" by code_simp
  moreover have "split_host_port (join_host_port host ''53'') = Some (host, ''53'')"
    using assms by (intro split_join_host_port) simp_all
  ultimately have "validate_host_port (join_host_port host ''53'') = None"
    using assms(1) by (simp add: validate_host_port_def)
  then show ?thesis by (simp add: server_address_def port)
qed

end
