(* ===== verification/Forward.thy ===== *)
theory Forward
  imports Server_Config Cache Server_Records
begin

text \<open>
  Forwarding (\<open>server/forwarding.go\<close>): the upstream exchange with its stub zones, the lookup with
  search domains, the order of absolute and search lookups, and the reverse zone. The server's
  constant part and everything outside the repository is the record \<open>env\<close>; what a request
  changes is the record \<open>server\<close>.
\<close>

section \<open>The server and its surroundings\<close>

text \<open>
  \<open>exchange tcp ns req past\<close> is the DNS client's \<open>Exchange\<close> with the server \<open>ns\<close>, after the
  exchanges \<open>past\<close>: the response, if any, and the error, if any. \<open>stub_order n\<close> is the order in
  which the map of stub zones is visited after \<open>n\<close> exchanges. \<open>clock i\<close> and \<open>visit i\<close> are the clock
  readings and map orders of the \<open>i\<close>-th cache operation of a request, \<open>rand\<close> the numbers drawn
  from \<open>dns.Id\<close>.
\<close>

type_synonym exchanges = "(string \<times> msg) list"

record env =
  lib :: dns_lib
  conf :: config
  version :: string
  find_hosts :: "string \<Rightarrow> string + ip list"
  find_reverse :: "string \<Rightarrow> string + string"
  exchange :: "bool \<Rightarrow> string \<Rightarrow> msg \<Rightarrow> exchanges \<Rightarrow> msg option \<times> string option"
  stub_order :: "nat \<Rightarrow> string order_fun"
  clock :: "nat \<Rightarrow> nat \<Rightarrow> int"
  visit :: "nat \<Rightarrow> nat \<Rightarrow> string order_fun"
  rand :: "nat \<Rightarrow> 16 word"

text \<open>
  The cache, the counters, the queries sent upstream and the messages passed to \<open>WriteMsg\<close>
  (whose failure is only logged).
\<close>

record server =
  rcache :: cache
  stats :: stats
  sent :: exchanges
  written :: "msg list"

definition inc_stat :: "counter \<Rightarrow> server \<Rightarrow> server" where
  "inc_stat k s = s\<lparr>stats := inc k (stats s)\<rparr>"

definition write_msg :: "msg \<Rightarrow> server \<Rightarrow> server" where
  "write_msg m s = s\<lparr>written := written s @ [m]\<rparr>"

text \<open>A response with \<open>RcodeNameError\<close> is counted, once for the exchange and once for the search.\<close>

definition note_name_error :: "msg \<Rightarrow> server \<Rightarrow> server" where
  "note_name_error m s = (if m_rcode m = rcode_name_error then inc_stat NameErrorCount s else s)"

section \<open>Querying upstream servers\<close>

text \<open>
  \<open>query_name\<close> is \<open>req.Question[0].Name\<close>. The loop over the servers of \<open>forwardQuery\<close> carries
  \<open>r\<close> and \<open>err\<close>.
\<close>

definition query_name :: "msg \<Rightarrow> string go" where
  "query_name req = (case m_question req of [] \<Rightarrow> Inl IndexRange | q # _ \<Rightarrow> Inr (q_name q))"

fun query_servers ::
  "env \<Rightarrow> bool \<Rightarrow> msg \<Rightarrow> string list \<Rightarrow> msg option \<times> string option \<Rightarrow> server
    \<Rightarrow> ((msg option \<times> string option) \<times> server) go"
where
  "query_servers E tcp req [] res s = Inr (res, s)"
| "query_servers E tcp req (ns # nss) res s =
     bind_go (query_name req) (\<lambda>_.
       (let (r, err) = exchange E tcp ns req (sent s);
            s = s\<lparr>sent := sent s @ [(ns, req)]\<rparr>
        in if err = None then
             (case r of
                None \<Rightarrow> Inl NilDeref
              | Some m \<Rightarrow>
                  (let s = note_name_error m s in
                   if cfg_rcache_non_negative (conf E) \<and> m_rcode m \<noteq> rcode_success
                   then query_servers E tcp req nss (r, err) s
                   else Inr ((r, err), s)))
           else query_servers E tcp req nss (r, err) s))"

fun matching_zone :: "string \<Rightarrow> string list \<Rightarrow> string option" where
  "matching_zone name [] = None"
| "matching_zone name (z # zs) = (if has_suffix name z then Some z else matching_zone name zs)"

definition choose_servers :: "env \<Rightarrow> msg \<Rightarrow> server \<Rightarrow> (string list \<times> server) go" where
  "choose_servers E req s =
     (case cfg_stub (conf E) of
        None \<Rightarrow> Inl NilDeref
      | Some zones \<Rightarrow>
          if zones = fmempty then Inr (cfg_nameservers (conf E), s)
          else bind_go (query_name req) (\<lambda>name.
            (case matching_zone name (stub_order E (length (sent s)) (fmdom zones)) of
               Some zone \<Rightarrow>
                 Inr (case fmlookup zones zone of Some srv \<Rightarrow> srv | None \<Rightarrow> [], inc_stat StubForwardCount s)
             | None \<Rightarrow> Inr (cfg_nameservers (conf E), s))))"

definition forward_query ::
  "env \<Rightarrow> msg \<Rightarrow> bool \<Rightarrow> server \<Rightarrow> ((msg option \<times> string option) \<times> server) go"
where
  "forward_query E req tcp s =
     bind_go (choose_servers E req s) (\<lambda>(nservers, s).
       query_servers E tcp req nservers (None, None) s)"

section \<open>Search domains\<close>

text \<open>The variables of \<open>forwardSearch\<close>; \<open>sa_req\<close> is its copy of the request.\<close>

record search_vars =
  sa_req :: msg
  sa_r :: "msg option"
  sa_nodata :: "msg option"
  sa_name :: string
  sa_err :: "string option"
  sa_did :: bool

definition set_query_name :: "string \<Rightarrow> msg \<Rightarrow> msg go" where
  "set_query_name n m =
     (case m_question m of
        [] \<Rightarrow> Inl IndexRange
      | q # qs \<Rightarrow> Inr (m\<lparr>m_question := \<lparr>q_name = n, q_type = q_type q, q_class = q_class q\<rparr> # qs\<rparr>))"

definition restore_question :: "question \<Rightarrow> msg \<Rightarrow> msg go" where
  "restore_question q m =
     (case m_question m of [] \<Rightarrow> Inl IndexRange | _ # qs \<Rightarrow> Inr (m\<lparr>m_question := q # qs\<rparr>))"

fun search_loop ::
  "env \<Rightarrow> bool \<Rightarrow> string \<Rightarrow> string list \<Rightarrow> search_vars \<Rightarrow> server \<Rightarrow> (search_vars \<times> server) go"
where
  "search_loop E tcp name [] v s = Inr (v, s)"
| "search_loop E tcp name (domain # ds) v s =
     (if has_suffix name domain then search_loop E tcp name ds v s
      else
        (let search_name = to_lower (append_domain (lib E) name domain) in
         bind_go (set_query_name search_name (sa_req v)) (\<lambda>req.
         bind_go (forward_query E req tcp s) (\<lambda>((r, err), s).
           (let v = v\<lparr>sa_req := req, sa_r := r, sa_name := search_name, sa_err := err, sa_did := True\<rparr> in
            if err \<noteq> None then Inr (v, s)
            else
              (case r of
                 None \<Rightarrow> Inl NilDeref
               | Some m \<Rightarrow>
                   (let s = note_name_error m s in
                    if m_rcode m = rcode_success then
                      (if length (m_answer m) = 0 \<and> \<not> m_truncated m
                       then search_loop E tcp name ds (v\<lparr>sa_nodata := Some m\<rparr>) s
                       else Inr (v, s))
                    else if m_rcode m = rcode_name_error \<or> m_rcode m = rcode_server_failure
                    then search_loop E tcp name ds v s
                    else Inr (v, s))))))))"

definition cname_record :: "string \<Rightarrow> string \<Rightarrow> rr" where
  "cname_record name target =
     \<lparr>rr_name = name, rr_type = type_CNAME, rr_class = class_INET, rr_ttl = 360,
      rr_data = RD_CNAME target\<rparr>"

text \<open>What follows the loop: the message returned for the last response.\<close>

definition search_result ::
  "env \<Rightarrow> msg \<Rightarrow> question \<Rightarrow> search_vars \<Rightarrow> (msg option \<times> string option) go"
where
  "search_result E req q v =
     (if \<not> sa_did v then Inr (Some (set_rcode (lib E) new_msg req rcode_name_error), None)
      else if sa_err v = None then
        (case sa_r v of
           None \<Rightarrow> Inl NilDeref
         | Some r \<Rightarrow>
             bind_go
               (restore_question q
                 (if m_rcode r = rcode_success then
                    (if length (m_answer r) > 0
                     then r\<lparr>m_answer := cname_record (q_name q) (sa_name v) # m_answer r\<rparr>
                     else r)
                  else (case sa_nodata v of Some n \<Rightarrow> n | None \<Rightarrow> r)))
               (\<lambda>r. Inr (Some r, None)))
      else
        (case sa_nodata v of
           Some n \<Rightarrow> bind_go (restore_question q n) (\<lambda>r. Inr (Some r, None))
         | None \<Rightarrow> Inr (sa_r v, sa_err v)))"

definition forward_search ::
  "env \<Rightarrow> msg \<Rightarrow> bool \<Rightarrow> server \<Rightarrow> ((msg option \<times> string option) \<times> server) go"
where
  "forward_search E req tcp s =
     (case m_question req of
        [] \<Rightarrow> Inl IndexRange
      | q # _ \<Rightarrow>
          bind_go
            (search_loop E tcp (q_name q) (cfg_search_domains (conf E))
               \<lparr>sa_req = req, sa_r = None, sa_nodata = None, sa_name = [], sa_err = None,
                sa_did = False\<rparr> s)
            (\<lambda>(v, s). bind_go (search_result E req q v) (\<lambda>res. Inr (res, s))))"

section \<open>The order of lookups\<close>

text \<open>
  The variables of \<open>ServeDNSForward\<close>. A phase either returns from the function with the message
  and the flag for a stale answer (\<open>Inl\<close>), or goes on with the variables (\<open>Inr\<close>).
\<close>

record forward_vars =
  absolute_res :: "msg option"
  absolute_err :: "string option"
  search_res :: "msg option"
  search_err :: "string option"
  did_absolute :: bool
  did_search :: bool

type_synonym phase_result = "((msg \<times> bool) + forward_vars) \<times> server"

definition to_client :: "msg \<Rightarrow> msg \<Rightarrow> msg" where
  "to_client req m = m\<lparr>m_compress := True, m_id := m_id req\<rparr>"

definition absolute_lookup ::
  "env \<Rightarrow> msg \<Rightarrow> bool \<Rightarrow> forward_vars \<Rightarrow> server \<Rightarrow> phase_result go"
where
  "absolute_lookup E req tcp v s =
     bind_go (forward_query E req tcp s) (\<lambda>((r, err), s).
       (let v = v\<lparr>absolute_res := r, absolute_err := err, did_absolute := True\<rparr> in
        if err \<noteq> None then Inr (Inr v, s)
        else
          (case r of
             None \<Rightarrow> Inl NilDeref
           | Some m \<Rightarrow>
               if m_rcode m = rcode_success
               then Inr (Inl (to_client req m, False), write_msg (to_client req m) s)
               else Inr (Inr v, s))))"

definition search_lookup ::
  "env \<Rightarrow> msg \<Rightarrow> bool \<Rightarrow> forward_vars \<Rightarrow> server \<Rightarrow> phase_result go"
where
  "search_lookup E req tcp v s =
     bind_go (forward_search E req tcp s) (\<lambda>((r, err), s).
       (let v = v\<lparr>search_res := r, search_err := err, did_search := True\<rparr> in
        if err \<noteq> None then Inr (Inr v, s)
        else
          (case r of
             None \<Rightarrow> Inl NilDeref
           | Some m \<Rightarrow>
               if m_rcode m = rcode_success
               then Inr (Inl (to_client req m, False), write_msg (to_client req m) s)
               else Inr (Inr v, s))))"

text \<open>
  The end of the function, reached without a positive result: \<open>m\<close> is the message that is
  returned unless a stale answer is at hand.
\<close>

definition negative_reply :: "msg \<Rightarrow> msg option \<Rightarrow> server \<Rightarrow> (msg \<times> bool) \<times> server" where
  "negative_reply m stale_res s =
     (case stale_res of
        Some st \<Rightarrow> ((st, True), write_msg st (inc_stat StaleCacheHit s))
      | None \<Rightarrow> ((m, False), write_msg m (inc_stat RequestFail s)))"

definition forward_end ::
  "env \<Rightarrow> msg \<Rightarrow> msg option \<Rightarrow> forward_vars \<Rightarrow> server \<Rightarrow> ((msg \<times> bool) \<times> server) go"
where
  "forward_end E req stale_res v s =
     (if did_absolute v \<and> absolute_err v = None then
        (case absolute_res v of
           None \<Rightarrow> Inl NilDeref
         | Some m \<Rightarrow> Inr (negative_reply (to_client req m) stale_res s))
      else if did_search v \<and> search_err v = None then
        (case search_res v of
           None \<Rightarrow> Inl NilDeref
         | Some m \<Rightarrow>
             Inr (negative_reply (set_rcode (lib E) new_msg req (m_rcode m)) stale_res
                    (inc_stat NoDataCount s)))
      else
        Inr (negative_reply (set_rcode (lib E) new_msg req rcode_server_failure) stale_res s))"

definition refuses :: "env \<Rightarrow> int \<Rightarrow> bool" where
  "refuses E name_dots \<longleftrightarrow>
     cfg_no_rec (conf E) \<or> length (cfg_nameservers (conf E)) = 0 \<or>
     name_dots < cfg_fwd_ndots (conf E) \<and> \<not> cfg_enable_search (conf E)"

text \<open>A phase that is skipped when an earlier one has returned.\<close>

definition and_then ::
  "phase_result go \<Rightarrow> (forward_vars \<Rightarrow> server \<Rightarrow> phase_result go) \<Rightarrow> phase_result go"
where
  "and_then p f = bind_go p (\<lambda>(x, s). case x of Inl done \<Rightarrow> Inr (Inl done, s) | Inr v \<Rightarrow> f v s)"

definition forward_phases :: "env \<Rightarrow> msg \<Rightarrow> bool \<Rightarrow> int \<Rightarrow> server \<Rightarrow> phase_result go" where
  "forward_phases E req tcp name_dots s =
     (let C = conf E;
          search_enabled = (cfg_enable_search C \<and> length (cfg_search_domains C) > 0);
          v0 = \<lparr>absolute_res = None, absolute_err = None, search_res = None, search_err = None,
                did_absolute = False, did_search = False\<rparr>
      in and_then
           (and_then
             (if name_dots \<ge> cfg_ndots C \<and> name_dots \<ge> cfg_fwd_ndots C
              then absolute_lookup E req tcp v0 s else Inr (Inr v0, s))
             (\<lambda>v s. if absolute_err v = None \<and> search_enabled
                    then search_lookup E req tcp v s else Inr (Inr v, s)))
           (\<lambda>v s. if search_err v = None \<and> \<not> did_absolute v \<and> name_dots \<ge> cfg_fwd_ndots C
                  then absolute_lookup E req tcp v s else Inr (Inr v, s)))"

definition serve_dns_forward ::
  "env \<Rightarrow> bool \<Rightarrow> msg \<Rightarrow> msg option \<Rightarrow> server \<Rightarrow> ((msg \<times> bool) \<times> server) go"
where
  "serve_dns_forward E tcp req stale_res s =
     bind_go (query_name req) (\<lambda>name.
       (let name_dots = count_label (lib E) name - 1 in
        if refuses E name_dots then
          (let m = set_rcode (lib E) new_msg req rcode_refused in Inr ((m, False), write_msg m s))
        else
          bind_go (forward_phases E req tcp name_dots (inc_stat ForwardCount s)) (\<lambda>(x, s).
            case x of Inl result \<Rightarrow> Inr (result, s) | Inr v \<Rightarrow> forward_end E req stale_res v s)))"

definition serve_dns_reverse ::
  "env \<Rightarrow> bool \<Rightarrow> msg \<Rightarrow> server \<Rightarrow> ((msg \<times> bool) \<times> server) go"
where
  "serve_dns_reverse E tcp req s =
     (let m = (set_reply (lib E) new_msg req)
                \<lparr>m_compress := True, m_authoritative := False, m_recursion_available := True\<rparr> in
      case m_question req of
        [] \<Rightarrow> Inl IndexRange
      | q # _ \<Rightarrow>
          (case ptr_records (find_reverse E) (cfg_hosts_ttl (conf E)) q of
             Inr records \<Rightarrow>
               if length records > 0
               then Inr ((m\<lparr>m_answer := records\<rparr>, False), write_msg (m\<lparr>m_answer := records\<rparr>) s)
               else serve_dns_forward E tcp req None s
           | Inl err \<Rightarrow> serve_dns_forward E tcp req None s))"

end
