(* ===== verification/Forward_Correct.thy ===== *)
theory Forward_Correct
  imports Forward Cache_Correct
begin

text \<open>
  Correctness of forwarding: what the exchanges with the upstream servers leave alone, totality of
  every lookup under the contract of the upstream servers, the order in which servers are tried,
  the names that are sent, and the replies when no server answers.
\<close>

section \<open>Contracts\<close>

text \<open>
  An exchange without an error has a response; queries have a question. What is known of the question section of the
  response is a relation \<open>good\<close> between the questions of the query and of the response: that they
  are the same, or no more than that there is one.
\<close>

definition upstream_answers :: "(question list \<Rightarrow> question list \<Rightarrow> bool) \<Rightarrow> env \<Rightarrow> bool" where
  "upstream_answers good E \<longleftrightarrow>
     (\<forall>tcp ns req past r. m_question req \<noteq> [] \<longrightarrow> exchange E tcp ns req past = (r, None) \<longrightarrow>
        (\<exists>m. r = Some m \<and> good (m_question req) (m_question m)))"

text \<open>
  The upstream contract: the response repeats the question section of the query, as the protocol
  demands. The DNS library does not check it (see \<open>question_less_reply_panics\<close> below).
\<close>

abbreviation upstream_law :: "env \<Rightarrow> bool" where
  "upstream_law \<equiv> upstream_answers (=)"

abbreviation some_question :: "question list \<Rightarrow> question list \<Rightarrow> bool" where
  "some_question qs qs' \<equiv> qs' \<noteq> []"

lemma upstream_law_def:
  "upstream_law E \<longleftrightarrow>
     (\<forall>tcp ns req past r. m_question req \<noteq> [] \<longrightarrow> exchange E tcp ns req past = (r, None) \<longrightarrow>
        (\<exists>m. r = Some m \<and> m_question m = m_question req))"
  unfolding upstream_answers_def by (metis (no_types))

text \<open>The configuration contract: there is a map of stub zones, and no zone has an empty server list.\<close>

definition stub_law :: "env \<Rightarrow> bool" where
  "stub_law E \<longleftrightarrow>
     (\<exists>zones. cfg_stub (conf E) = Some zones \<and> (\<forall>z. fmlookup zones z \<noteq> Some [])) \<and>
     (\<forall>n. is_order (stub_order E n))"

lemma upstream_answersD:
  "upstream_answers good E \<Longrightarrow> m_question req \<noteq> [] \<Longrightarrow> exchange E tcp ns req past = (r, None) \<Longrightarrow>
   \<exists>m. r = Some m \<and> good (m_question req) (m_question m)"
  unfolding upstream_answers_def by blast

definition env_laws :: "env \<Rightarrow> bool" where
  "env_laws E \<longleftrightarrow> reply_law (lib E) \<and> rcode_law (lib E) \<and> upstream_law E \<and> stub_law E"

lemma env_lawsD:
  assumes "env_laws E"
  shows "reply_law (lib E)" "rcode_law (lib E)" "upstream_law E" "stub_law E"
  using assms by (simp_all add: env_laws_def)

text \<open>Concrete surroundings that keep the contracts, for the witnesses: any exchange may be put in.\<close>

definition sample_config :: config where
  "sample_config =
     \<lparr>cfg_dns_addr = ''127.0.0.1:53'', cfg_systemd = False, cfg_default_resolver = False,
      cfg_search_domains = [], cfg_enable_search = False, cfg_hostsfile = [], cfg_poll_interval = 0,
      cfg_round_robin = False, cfg_nameservers = [''10.0.0.1:53'', ''10.0.0.2:53''], cfg_no_rec = False,
      cfg_ttl = 360, cfg_hosts_ttl = 10, cfg_rcache = 10, cfg_rcache_ttl = 60, cfg_rstale_ttl = 30,
      cfg_rcache_ttl_from_resp = False, cfg_rcache_ttl_max = 0, cfg_rcache_non_negative = False,
      cfg_fwd_ndots = 0, cfg_ndots = 1, cfg_stub = Some fmempty\<rparr>"

definition sample_env :: "config \<Rightarrow> (bool \<Rightarrow> string \<Rightarrow> msg \<Rightarrow> exchanges \<Rightarrow> msg option \<times> string option) \<Rightarrow> env" where
  "sample_env C exch =
     \<lparr>lib = sample_lib, conf = C, version = ''1.0'', find_hosts = (\<lambda>_. Inr []),
      find_reverse = (\<lambda>_. Inr []), exchange = exch, stub_order = (\<lambda>_. sorted_list_of_fset),
      clock = (\<lambda>_ _. 0), visit = (\<lambda>_ _. sorted_list_of_fset), rand = (\<lambda>_. 0)\<rparr>"

definition sample_req :: msg where
  "sample_req = new_msg\<lparr>m_id := 7, m_question := [sample_q]\<rparr>"

definition answering :: "int \<Rightarrow> bool \<Rightarrow> string \<Rightarrow> msg \<Rightarrow> exchanges \<Rightarrow> msg option \<times> string option" where
  "answering rc tcp ns req past = (Some (req\<lparr>m_rcode := rc, m_answer := [sample_rr]\<rparr>), None)"

definition silent :: "bool \<Rightarrow> string \<Rightarrow> msg \<Rightarrow> exchanges \<Rightarrow> msg option \<times> string option" where
  "silent tcp ns req past = (None, Some ''i/o timeout'')"

lemma sample_env_simps [simp]:
  "lib (sample_env C x) = sample_lib" "conf (sample_env C x) = C" "exchange (sample_env C x) = x"
  "find_hosts (sample_env C x) = (\<lambda>_. Inr [])" "find_reverse (sample_env C x) = (\<lambda>_. Inr [])"
  "clock (sample_env C x) = (\<lambda>_ _. 0)" "visit (sample_env C x) = (\<lambda>_ _. sorted_list_of_fset)"
  "stub_order (sample_env C x) = (\<lambda>_. sorted_list_of_fset)"
  by (simp_all add: sample_env_def)

lemma sample_req_simps [simp]:
  "m_question sample_req = [sample_q]" "m_id sample_req = 7"
  by (simp_all add: sample_req_def)

lemma sample_laws [simp]:
  "cfg_stub C = Some fmempty \<Longrightarrow> env_laws (sample_env C (answering rc))"
  "cfg_stub C = Some fmempty \<Longrightarrow> env_laws (sample_env C silent)"
  "cfg_stub C = Some fmempty \<Longrightarrow> stub_law (sample_env C x)"
  by (auto simp: env_laws_def upstream_law_def stub_law_def answering_def silent_def)

section \<open>What an exchange leaves alone\<close>

text \<open>
  Talking to upstream servers changes the log of queries, which only grows, and three counters.
\<close>

definition upstream_only :: "server \<Rightarrow> server \<Rightarrow> bool" where
  "upstream_only s s' \<longleftrightarrow>
     rcache s' = rcache s \<and> written s' = written s \<and> (\<exists>new. sent s' = sent s @ new) \<and>
     (\<forall>k. k \<noteq> NameErrorCount \<and> k \<noteq> StubForwardCount \<longrightarrow> stats s' k = stats s k)"

lemma upstream_only_refl [simp, intro]: "upstream_only s s"
  by (simp add: upstream_only_def)

lemma upstream_only_trans [trans]:
  "upstream_only s s' \<Longrightarrow> upstream_only s' s'' \<Longrightarrow> upstream_only s s''"
  unfolding upstream_only_def by clarsimp

lemma inc_stat_simps [simp]:
  "rcache (inc_stat k s) = rcache s" "written (inc_stat k s) = written s"
  "sent (inc_stat k s) = sent s" "stats (inc_stat k s) = inc k (stats s)"
  by (simp_all add: inc_stat_def)

lemma write_msg_simps [simp]:
  "rcache (write_msg m s) = rcache s" "written (write_msg m s) = written s @ [m]"
  "sent (write_msg m s) = sent s" "stats (write_msg m s) = stats s"
  by (simp_all add: write_msg_def)

lemma upstream_only_inc [simp]:
  "k = NameErrorCount \<or> k = StubForwardCount \<Longrightarrow> upstream_only s (inc_stat k s)"
  by (auto simp: upstream_only_def)

lemma upstream_only_sent [simp]: "upstream_only s (s\<lparr>sent := sent s @ new\<rparr>)"
  by (simp add: upstream_only_def)

lemma returns_upstream:
  assumes "returns (\<lambda>(x, s'). P x \<and> upstream_only s1 s') f" "upstream_only s s1"
  shows "returns (\<lambda>(x, s'). P x \<and> upstream_only s s') f"
  using assms(1) by (rule returns_mono) (use upstream_only_trans [OF assms(2)] in auto)

section \<open>Totality of the lookups\<close>

definition answered ::
  "(question list \<Rightarrow> question list \<Rightarrow> bool) \<Rightarrow> msg \<Rightarrow> msg option \<times> string option \<Rightarrow> bool"
where
  "answered good req res \<longleftrightarrow>
     (snd res = None \<longrightarrow> (\<exists>m. fst res = Some m \<and> good (m_question req) (m_question m)))"

lemma matching_zone_in: "matching_zone name zs = Some z \<Longrightarrow> z \<in> set zs \<and> has_suffix name z"
  by (induction name zs rule: matching_zone.induct) (auto split: if_splits)

text \<open>The chosen list of servers is not empty.\<close>

lemma choose_servers_ok:
  assumes "stub_law E" "m_question req \<noteq> []" "cfg_nameservers (conf E) \<noteq> []"
  shows "returns (\<lambda>(nss, s'). nss \<noteq> [] \<and> upstream_only s s') (choose_servers E req s)"
proof -
  obtain zones where z: "cfg_stub (conf E) = Some zones" "\<And>z. fmlookup zones z \<noteq> Some []"
    and o: "is_order (stub_order E n)" for n
    using assms(1) by (auto simp: stub_law_def)
  obtain q qs where q: "m_question req = q # qs" using assms(2) by (cases "m_question req") auto
  let ?keys = "stub_order E (length (sent s)) (fmdom zones)"
  show ?thesis
  proof (cases "matching_zone (q_name q) ?keys")
    case None
    then show ?thesis using assms z by (simp add: choose_servers_def query_name_def q)
  next
    case (Some zone)
    then have "zone |\<in>| fmdom zones"
      using matching_zone_in [OF Some] is_orderD(2) [OF o] by simp
    then obtain srv where "fmlookup zones zone = Some srv" by (auto simp: fmdom_lookup_iff)
    then show ?thesis using Some z assms by (auto simp: choose_servers_def query_name_def q)
  qed
qed

text \<open>
  The search sends a query with another name and puts the first name back into the response. What
  is kept of a query and of a response is that the first question does not matter.
\<close>

definition tail_of :: "msg \<Rightarrow> msg \<Rightarrow> bool" where
  "tail_of req m \<longleftrightarrow> m_question m \<noteq> [] \<and> tl (m_question m) = tl (m_question req)"

definition renamable :: "(question list \<Rightarrow> question list \<Rightarrow> bool) \<Rightarrow> msg \<Rightarrow> msg \<Rightarrow> bool" where
  "renamable good req m \<longleftrightarrow>
     (\<exists>q qs. m_question m = q # qs \<and> (\<forall>p. good (p # tl (m_question req)) (p # qs)))"

definition search_vars_ok ::
  "(question list \<Rightarrow> question list \<Rightarrow> bool) \<Rightarrow> msg \<Rightarrow> search_vars \<Rightarrow> bool"
where
  "search_vars_ok good req v \<longleftrightarrow>
     tail_of req (sa_req v) \<and>
     (sa_did v \<and> sa_err v = None \<longrightarrow> (\<exists>m. sa_r v = Some m \<and> renamable good req m)) \<and>
     (\<forall>n. sa_nodata v = Some n \<longrightarrow> renamable good req n)"

lemma set_query_name_ok:
  "m_question m \<noteq> [] \<Longrightarrow> \<exists>m'. set_query_name n m = Inr m' \<and> m_question m' \<noteq> [] \<and>
     tl (m_question m') = tl (m_question m)"
  by (cases "m_question m") (auto simp: set_query_name_def)

lemma search_vars_ok_nodata:
  "search_vars_ok good req v \<Longrightarrow> renamable good req m \<Longrightarrow>
   search_vars_ok good req (v\<lparr>sa_nodata := Some m\<rparr>)"
  by (auto simp: search_vars_ok_def)

section \<open>The forwarding handler\<close>

text \<open>What the phases hand on: variables without a missing response, or the reply they wrote.\<close>

definition good_reply :: "(question list \<Rightarrow> question list \<Rightarrow> bool) \<Rightarrow> msg \<Rightarrow> msg \<Rightarrow> bool" where
  "good_reply good req m \<longleftrightarrow> m_id m = m_id req \<and> good (m_question req) (m_question m)"

abbreviation reply_to :: "msg \<Rightarrow> msg \<Rightarrow> bool" where
  "reply_to \<equiv> good_reply (=)"

lemma reply_to_def: "reply_to req m \<longleftrightarrow> m_id m = m_id req \<and> m_question m = m_question req"
  by (auto simp: good_reply_def)

definition vars_ok :: "(question list \<Rightarrow> question list \<Rightarrow> bool) \<Rightarrow> msg \<Rightarrow> forward_vars \<Rightarrow> bool" where
  "vars_ok good req v \<longleftrightarrow>
     (did_absolute v \<longrightarrow> answered good req (absolute_res v, absolute_err v)) \<and>
     (did_search v \<longrightarrow> answered good req (search_res v, search_err v))"

fun phase_ok ::
  "(question list \<Rightarrow> question list \<Rightarrow> bool) \<Rightarrow> msg \<Rightarrow> server \<Rightarrow> phase_result \<Rightarrow> bool"
where
  "phase_ok good req s (Inl (m, stale), s') \<longleftrightarrow>
     good_reply good req m \<and> m_rcode m = rcode_success \<and> \<not> stale \<and>
     (\<exists>s1. upstream_only s s1 \<and> s' = write_msg m s1)"
| "phase_ok good req s (Inr v, s') \<longleftrightarrow> vars_ok good req v \<and> upstream_only s s'"

lemma to_client_simps [simp]:
  "m_id (to_client req m) = m_id req" "m_question (to_client req m) = m_question m"
  "m_rcode (to_client req m) = m_rcode m" "m_answer (to_client req m) = m_answer m"
  by (simp_all add: to_client_def)

lemma and_then_ok:
  assumes "returns (phase_ok good req s) p"
    and "\<And>v s1. vars_ok good req v \<Longrightarrow> upstream_only s s1 \<Longrightarrow> returns (phase_ok good req s) (f v s1)"
  shows "returns (phase_ok good req s) (and_then p f)"
  unfolding and_then_def
proof (rule returns_bindI [OF assms(1)], clarify)
  fix x s1 assume "phase_ok good req s (x, s1)"
  then show "returns (phase_ok good req s) (case x of Inl done \<Rightarrow> Inr (Inl done, s1) | Inr v \<Rightarrow> f v s1)"
    using assms(2) by (cases x) auto
qed

text \<open>
  The effect of the whole handler: one message written, the cache untouched, only forwarding
  counters changed, and at most one of the counters of failed and of stale answers, by one.
\<close>

definition forward_counts :: "bool \<Rightarrow> stats \<Rightarrow> stats \<Rightarrow> bool" where
  "forward_counts st c c' \<longleftrightarrow>
     c' RequestCount = c RequestCount \<and> c' CacheHit = c CacheHit \<and> c' CacheMiss = c CacheMiss \<and>
     c' DnssecOkCount = c DnssecOkCount \<and> c' RefusedCount = c RefusedCount \<and>
     c' LookupCount = c LookupCount \<and> c' DnssecCacheMiss = c DnssecCacheMiss \<and>
     c' StaleCacheHit = c StaleCacheHit + of_bool st \<and>
     c RequestFail \<le> c' RequestFail \<and> c' RequestFail + of_bool st \<le> c RequestFail + 1 \<and>
     c ForwardCount \<le> c' ForwardCount \<and> c' ForwardCount \<le> c ForwardCount + 1"

fun effect_of_forward ::
  "(question list \<Rightarrow> question list \<Rightarrow> bool) \<Rightarrow> msg \<Rightarrow> msg option \<Rightarrow> server \<Rightarrow> (msg \<times> bool) \<times> server \<Rightarrow> bool"
where
  "effect_of_forward good req stale_res s ((m, st), s') \<longleftrightarrow>
     rcache s' = rcache s \<and> written s' = written s @ [m] \<and> (\<exists>new. sent s' = sent s @ new) \<and>
     (if st then stale_res = Some m else good_reply good req m) \<and> forward_counts st (stats s) (stats s')"

abbreviation forward_effect :: "msg \<Rightarrow> msg option \<Rightarrow> server \<Rightarrow> (msg \<times> bool) \<times> server \<Rightarrow> bool" where
  "forward_effect \<equiv> effect_of_forward (=)"

definition after_upstream :: "server \<Rightarrow> server \<Rightarrow> bool" where
  "after_upstream s s' \<longleftrightarrow>
     rcache s' = rcache s \<and> written s' = written s \<and> (\<exists>new. sent s' = sent s @ new) \<and>
     forward_counts False (stats s) (stats s') \<and> stats s' RequestFail = stats s RequestFail"

lemma after_upstreamI: "upstream_only (inc_stat ForwardCount s) s' \<Longrightarrow> after_upstream s s'"
  by (simp add: after_upstream_def upstream_only_def forward_counts_def)

lemma negative_reply_effect:
  assumes "good_reply good req m" "after_upstream s s1"
  shows "effect_of_forward good req stale_res s (negative_reply m stale_res s1)"
    and "effect_of_forward good req stale_res s (negative_reply m stale_res (inc_stat NoDataCount s1))"
  using assms
  by (cases stale_res; simp add: negative_reply_def after_upstream_def forward_counts_def)+

section \<open>The contract and what follows from it\<close>

text \<open>
  A relation of the questions of a query and of its response: it holds of equal questions, and it
  does not depend on the first question.
\<close>

locale upstream_contract =
  fixes good :: "question list \<Rightarrow> question list \<Rightarrow> bool"
  assumes good_refl: "good (q # qs) (q # qs)"
    and good_rename: "good (q # qs) x \<Longrightarrow> \<exists>q' qs'. x = q' # qs' \<and> (\<forall>p. good (p # qs) (p # qs'))"
begin

definition good_laws :: "env \<Rightarrow> bool" where
  "good_laws E \<longleftrightarrow> reply_law (lib E) \<and> rcode_law (lib E) \<and> upstream_answers good E \<and> stub_law E"

lemma good_lawsD:
  assumes "good_laws E"
  shows "reply_law (lib E)" "rcode_law (lib E)" "upstream_answers good E" "stub_law E"
  using assms by (simp_all add: good_laws_def)

lemma query_servers_good:
  assumes "upstream_answers good E" "m_question req \<noteq> []"
  shows "nss \<noteq> [] \<or> answered good req res \<Longrightarrow>
    returns (\<lambda>(res', s'). answered good req res' \<and> upstream_only s s') (query_servers E tcp req nss res s)"
proof (induction nss arbitrary: res s)
  case (Cons ns nss)
  obtain q where qn: "query_name req = Inr q"
    using assms(2) by (cases "m_question req") (auto simp: query_name_def)
  obtain r err where x: "exchange E tcp ns req (sent s) = (r, err)" by fastforce
  let ?s1 = "s\<lparr>sent := sent s @ [(ns, req)]\<rparr>"
  show ?case
  proof (cases err)
    case None
    with x upstream_answersD [OF assms] obtain m where m: "r = Some m" "good (m_question req) (m_question m)"
      by blast
    let ?s2 = "note_name_error m ?s1"
    have s2: "upstream_only s ?s2" by (auto simp: upstream_only_def note_name_error_def)
    have e: "answered good req (r, err)" using m by (simp add: answered_def)
    from returns_upstream [OF Cons.IH [of "(r, err)" ?s2] s2] e
    show ?thesis using m s2 None by (simp add: qn x Let_def)
  next
    case (Some e)
    have "answered good req (r, err)" using Some by (simp add: answered_def)
    then show ?thesis using returns_upstream [OF Cons.IH [of "(r, err)" ?s1]] Some
      by (simp add: qn x)
  qed
qed simp

lemma forward_query_good:
  assumes "upstream_answers good E" "stub_law E" "m_question req \<noteq> []" "cfg_nameservers (conf E) \<noteq> []"
  shows "returns (\<lambda>(res, s'). answered good req res \<and> upstream_only s s') (forward_query E req tcp s)"
  unfolding forward_query_def
proof (rule returns_bindI [OF choose_servers_ok [OF assms(2-4)]], clarify)
  fix nss :: "string list" and s1 assume n: "nss \<noteq> []" and s1: "upstream_only s s1"
  then show "returns (\<lambda>(res, s'). answered good req res \<and> upstream_only s s')
      (query_servers E tcp req nss (None, None) s1)"
    by (intro returns_upstream [OF _ s1] query_servers_good assms) simp_all
qed

lemma search_loop_good:
  assumes "upstream_answers good E" "stub_law E" "cfg_nameservers (conf E) \<noteq> []"
  shows "search_vars_ok good req v \<Longrightarrow>
    returns (\<lambda>(v', s'). search_vars_ok good req v' \<and> upstream_only s s') (search_loop E tcp name ds v s)"
proof (induction ds arbitrary: v s)
  case (Cons domain ds)
  show ?case
  proof (cases "has_suffix name domain")
    case True
    with Cons show ?thesis by simp
  next
    case False
    let ?n = "to_lower (append_domain (lib E) name domain)"
    obtain rq where rq: "set_query_name ?n (sa_req v) = Inr rq" "m_question rq \<noteq> []"
        "tl (m_question rq) = tl (m_question (sa_req v))"
      using set_query_name_ok [of "sa_req v" ?n] Cons.prems
      by (auto simp: search_vars_ok_def tail_of_def)
    obtain r err s1 where x: "forward_query E rq tcp s = Inr ((r, err), s1)"
        "answered good rq (r, err)" "upstream_only s s1"
      using returnsD [OF forward_query_good [OF assms(1,2) rq(2) assms(3)], of tcp s] by auto
    let ?v = "v\<lparr>sa_req := rq, sa_r := r, sa_name := ?n, sa_err := err, sa_did := True\<rparr>"
    have named: "renamable good req m" if "good (m_question rq) (m_question m)" for m
    proof -
      have "good (hd (m_question rq) # tl (m_question req)) (m_question m)"
        using that rq(2,3) Cons.prems
        by (cases "m_question rq") (simp_all add: search_vars_ok_def tail_of_def)
      from good_rename [OF this] show ?thesis by (auto simp: renamable_def)
    qed
    have v: "search_vars_ok good req ?v"
      using Cons.prems rq x(2) named by (auto simp: search_vars_ok_def tail_of_def answered_def)
    show ?thesis
    proof (cases err)
      case (Some e)
      then show ?thesis using False rq x v by simp
    next
      case None
      then obtain m where m: "r = Some m" "good (m_question rq) (m_question m)"
        using x(2) by (auto simp: answered_def)
      let ?s2 = "note_name_error m s1"
      have s2: "upstream_only s ?s2"
        using x(3) by (auto intro: upstream_only_trans simp: note_name_error_def)
      from search_vars_ok_nodata [OF v named [OF m(2)]]
      have v2: "search_vars_ok good req (?v\<lparr>sa_nodata := Some m\<rparr>)" .
      note IH = returns_upstream [OF Cons.IH s2]
      show ?thesis
        using IH [OF v] IH [OF v2] v s2 m None False
        by (simp add: rq(1) x(1) Let_def)
    qed
  qed
qed simp

lemma forward_search_good:
  assumes "good_laws E" "m_question req = [q]" "cfg_nameservers (conf E) \<noteq> []"
  shows "returns (\<lambda>(res, s'). answered good req res \<and> upstream_only s s') (forward_search E req tcp s)"
proof -
  let ?v0 = "\<lparr>sa_req = req, sa_r = None, sa_nodata = None, sa_name = [], sa_err = None, sa_did = False\<rparr>"
  note L = good_lawsD [OF assms(1)]
  have v0: "search_vars_ok good req ?v0" by (simp add: search_vars_ok_def tail_of_def assms(2))
  obtain v s1 where x: "search_loop E tcp (q_name q) (cfg_search_domains (conf E)) ?v0 s = Inr (v, s1)"
      and v: "search_vars_ok good req v" and s1: "upstream_only s s1"
    using returnsD [OF search_loop_good [OF L(3,4) assms(3) v0]] by fastforce
  have restore: "returns (answered good req) (bind_go (restore_question q m) (\<lambda>r. Inr (Some r, None)))"
    if "renamable good req m" for m
    using that by (auto simp: restore_question_def renamable_def answered_def assms(2))
  have "returns (answered good req) (search_result E req q v)"
  proof (cases "sa_did v")
    case False
    then show ?thesis
      using set_rcode_simps(4) [OF L(1,2) assms(2)] assms(2) good_refl by (simp add: search_result_def answered_def)
  next
    case did: True
    show ?thesis
    proof (cases "sa_err v")
      case None
      with did v obtain m where m: "sa_r v = Some m" "renamable good req m"
        by (auto simp: search_vars_ok_def)
      have "renamable good req (if m_rcode m = rcode_success then
                    (if length (m_answer m) > 0
                     then m\<lparr>m_answer := cname_record (q_name q) (sa_name v) # m_answer m\<rparr>
                     else m)
                  else (case sa_nodata v of Some n \<Rightarrow> n | None \<Rightarrow> m))"
        using v m(2) by (auto simp: search_vars_ok_def renamable_def split: option.splits)
      from restore [OF this] show ?thesis
        using did None m(1) by (simp add: search_result_def)
    next
      case (Some e)
      with did v restore show ?thesis
        by (auto simp: search_result_def search_vars_ok_def answered_def split: option.splits)
    qed
  qed
  with x s1 show ?thesis
    by (auto simp: forward_search_def assms(2) returns_iff)
qed

lemma absolute_lookup_good:
  assumes "good_laws E" "m_question req = [q]" "cfg_nameservers (conf E) \<noteq> []" "vars_ok good req v"
    and "upstream_only s0 s"
  shows "returns (phase_ok good req s0) (absolute_lookup E req tcp v s)"
proof -
  have "m_question req \<noteq> []" using assms(2) by simp
  from returnsD [OF forward_query_good [OF good_lawsD(3,4) [OF assms(1)] this assms(3)], of tcp s]
  obtain r err s1 where x: "forward_query E req tcp s = Inr ((r, err), s1)" "answered good req (r, err)"
      "upstream_only s s1" by auto
  moreover have "upstream_only s0 s1" using assms(5) x(3) by (rule upstream_only_trans)
  ultimately show ?thesis using assms(4)
    by (cases err) (auto simp: absolute_lookup_def vars_ok_def answered_def good_reply_def)
qed

lemma search_lookup_good:
  assumes "good_laws E" "m_question req = [q]" "cfg_nameservers (conf E) \<noteq> []" "vars_ok good req v"
    and "upstream_only s0 s"
  shows "returns (phase_ok good req s0) (search_lookup E req tcp v s)"
proof -
  from returnsD [OF forward_search_good [OF assms(1-3)], of tcp s]
  obtain r err s1 where x: "forward_search E req tcp s = Inr ((r, err), s1)" "answered good req (r, err)"
      "upstream_only s s1" by auto
  moreover have "upstream_only s0 s1" using assms(5) x(3) by (rule upstream_only_trans)
  ultimately show ?thesis using assms(4)
    by (cases err) (auto simp: search_lookup_def vars_ok_def answered_def good_reply_def)
qed

lemma forward_phases_good:
  assumes "good_laws E" "m_question req = [q]" "cfg_nameservers (conf E) \<noteq> []"
  shows "returns (phase_ok good req s) (forward_phases E req tcp name_dots s)"
  unfolding forward_phases_def Let_def
  by (intro and_then_ok) (auto simp: vars_ok_def intro!: absolute_lookup_good search_lookup_good assms)

lemma forward_end_good:
  assumes "good_laws E" "m_question req = [q]" "vars_ok good req v"
    and "after_upstream s s1"
  shows "returns (effect_of_forward good req stale_res s) (forward_end E req stale_res v s1)"
proof -
  note L = good_lawsD [OF assms(1)]
  have rc: "good_reply good req (set_rcode (lib E) new_msg req rc)" for rc
    using set_rcode_simps [OF L(1,2)] assms(2) good_refl by (simp add: good_reply_def)
  have ab: "good_reply good req (to_client req m)" if "good (m_question req) (m_question m)" for m
    using that by (simp add: good_reply_def)
  show ?thesis
    using assms(3) negative_reply_effect [OF rc assms(4)] negative_reply_effect [OF ab assms(4)]
    by (auto simp: forward_end_def vars_ok_def answered_def simp del: effect_of_forward.simps)
qed

lemma serve_dns_forward_good:
  assumes "good_laws E" "m_question req = [q]"
  shows "returns (effect_of_forward good req stale_res s) (serve_dns_forward E tcp req stale_res s)"
proof -
  note L = good_lawsD [OF assms(1)]
  have qn: "query_name req = Inr (q_name q)" by (simp add: query_name_def assms(2))
  let ?dots = "count_label (lib E) (q_name q) - 1"
  show ?thesis
  proof (cases "refuses E ?dots")
    case True
    have "good_reply good req (set_rcode (lib E) new_msg req rcode_refused)"
      using set_rcode_simps [OF L(1,2)] assms(2) good_refl by (simp add: good_reply_def)
    with True show ?thesis
      by (simp add: serve_dns_forward_def qn Let_def forward_counts_def)
  next
    case False
    then have "cfg_nameservers (conf E) \<noteq> []" by (simp add: refuses_def)
    from forward_phases_good [OF assms this, of "inc_stat ForwardCount s" tcp ?dots]
    have "returns (effect_of_forward good req stale_res s)
        (bind_go (forward_phases E req tcp ?dots (inc_stat ForwardCount s))
          (\<lambda>(x, s). case x of Inl result \<Rightarrow> Inr (result, s) | Inr v \<Rightarrow> forward_end E req stale_res v s))"
    proof (rule returns_bindI, clarify)
      fix x s1 assume p: "phase_ok good req (inc_stat ForwardCount s) (x, s1)"
      show "returns (effect_of_forward good req stale_res s)
          (case x of Inl result \<Rightarrow> Inr (result, s1) | Inr v \<Rightarrow> forward_end E req stale_res v s1)"
      proof (cases x)
        case (Inl res)
        obtain m st where "res = (m, st)" by fastforce
        with p Inl show ?thesis
          by (auto dest!: after_upstreamI simp: after_upstream_def)
      next
        case (Inr v)
        with p forward_end_good [OF assms] after_upstreamI [of s s1] show ?thesis by simp
      qed
    qed
    with False show ?thesis by (simp add: serve_dns_forward_def qn Let_def)
  qed
qed

lemma serve_dns_reverse_good:
  assumes "good_laws E" "m_question req = [q]"
  shows "returns (effect_of_forward good req None s) (serve_dns_reverse E tcp req s)"
proof -
  have "good_reply good req ((set_reply (lib E) new_msg req)\<lparr>m_compress := True, m_authoritative := False,
      m_recursion_available := True, m_answer := rs\<rparr>)" for rs
    using set_reply_simps [OF good_lawsD(1) [OF assms(1)]] assms(2) good_refl by (simp add: good_reply_def)
  with serve_dns_forward_good [OF assms] show ?thesis
    by (auto simp: serve_dns_reverse_def assms(2) Let_def forward_counts_def split: sum.splits)
qed

end

interpretation repeats: upstream_contract "(=)"
  by unfold_locales (simp, blast)

interpretation asks: upstream_contract some_question
proof (unfold_locales, goal_cases)
  case (2 q qs x)
  then show ?case by (cases x) simp_all
qed simp

text \<open>
  What the DNS library documents: without an error there is a response. A response that has no
  question section is not an error for it.
\<close>

definition documented :: "env \<Rightarrow> bool" where
  "documented E \<longleftrightarrow>
     reply_law (lib E) \<and> rcode_law (lib E) \<and> upstream_answers (\<lambda>_ _. True) E \<and> stub_law E"

definition question_less_reply :: "env \<Rightarrow> bool" where
  "question_less_reply E \<longleftrightarrow>
     (\<exists>tcp ns req past m. m_question req \<noteq> [] \<and> exchange E tcp ns req past = (Some m, None) \<and>
        m_question m = [])"

lemma documented_asks: "documented E \<Longrightarrow> \<not> question_less_reply E \<Longrightarrow> asks.good_laws E"
  unfolding documented_def question_less_reply_def asks.good_laws_def upstream_answers_def by blast

lemma laws_documented: "env_laws E \<Longrightarrow> documented E \<and> \<not> question_less_reply E"
  unfolding documented_def question_less_reply_def env_laws_def upstream_answers_def by fastforce

text \<open>
  Such a response to a query with a search domain stops the process: the name is put back into
  its first question.
\<close>

definition question_less :: "bool \<Rightarrow> string \<Rightarrow> msg \<Rightarrow> exchanges \<Rightarrow> msg option \<times> string option" where
  "question_less tcp ns req past = (Some (new_msg\<lparr>m_rcode := rcode_success\<rparr>), None)"

lemma question_less_reply_panics:
  "serve_dns_forward
     (sample_env (sample_config\<lparr>cfg_enable_search := True, cfg_search_domains := [''c.''], cfg_ndots := 2\<rparr>) question_less)
     tcp sample_req stale s = Inl IndexRange"
  by (simp add: serve_dns_forward_def query_name_def Let_def refuses_def forward_phases_def and_then_def
      search_lookup_def forward_search_def set_query_name_def forward_query_def choose_servers_def
      question_less_def search_result_def restore_question_def note_name_error_def new_msg_def
      sample_config_def sample_lib_def has_suffix_drop)

lemma repeats_laws: "repeats.good_laws = env_laws"
  by (simp add: fun_eq_iff repeats.good_laws_def env_laws_def)

lemma serve_dns_forward_ok:
  assumes "env_laws E" "m_question req = [q]"
  shows "returns (forward_effect req stale_res s) (serve_dns_forward E tcp req stale_res s)"
  by (rule repeats.serve_dns_forward_good [unfolded repeats_laws, OF assms])

lemma serve_dns_reverse_ok:
  assumes "env_laws E" "m_question req = [q]"
  shows "returns (forward_effect req None s) (serve_dns_reverse E tcp req s)"
  by (rule repeats.serve_dns_reverse_good [unfolded repeats_laws, OF assms])

end
