(* ===== verification/Upstream_Correct.thy ===== *)
theory Upstream_Correct
  imports Forward_Correct
begin

text \<open>
  Which servers are asked, in which order, which names are sent to them, and what the client gets
  when none of them answers.
\<close>

section \<open>The order of servers\<close>

text \<open>
  The exchange with the \<open>i\<close>-th server of a list, after the earlier ones of the list have been tried,
  and whether its result ends the loop.
\<close>

definition attempt ::
  "env \<Rightarrow> bool \<Rightarrow> msg \<Rightarrow> exchanges \<Rightarrow> string list \<Rightarrow> nat \<Rightarrow> msg option \<times> string option"
where
  "attempt E tcp req past nss i =
     exchange E tcp (nss ! i) req (past @ map (\<lambda>ns. (ns, req)) (take i nss))"

fun accepted :: "env \<Rightarrow> msg option \<times> string option \<Rightarrow> bool" where
  "accepted E (r, err) \<longleftrightarrow>
     err = None \<and> (cfg_rcache_non_negative (conf E) \<longrightarrow> (\<exists>m. r = Some m \<and> m_rcode m = rcode_success))"

lemma attempt_Suc:
  "attempt E tcp req past (ns # nss) (Suc i) = attempt E tcp req (past @ [(ns, req)]) nss i"
  by (simp add: attempt_def)

lemma attempt_0: "attempt E tcp req past (ns # nss) 0 = exchange E tcp ns req past"
  by (simp add: attempt_def)

text \<open>The state and the result when the loop stops after \<open>n\<close> servers.\<close>

definition tried ::
  "env \<Rightarrow> bool \<Rightarrow> msg \<Rightarrow> string list \<Rightarrow> exchanges \<Rightarrow> nat \<Rightarrow> msg option \<times> string option
    \<Rightarrow> exchanges \<Rightarrow> bool"
where
  "tried E tcp req nss past n res past' \<longleftrightarrow>
     n < length nss \<and> past' = past @ map (\<lambda>ns. (ns, req)) (take (Suc n) nss) \<and>
     res = attempt E tcp req past nss n \<and>
     (\<forall>i < n. \<not> accepted E (attempt E tcp req past nss i)) \<and>
     (Suc n < length nss \<longrightarrow> accepted E res)"

lemma tried_Cons:
  assumes "tried E tcp req nss (past @ [(ns, req)]) n res past'"
    and "\<not> accepted E (exchange E tcp ns req past)"
  shows "tried E tcp req (ns # nss) past (Suc n) res past'"
proof -
  have "\<not> accepted E (attempt E tcp req past (ns # nss) i)" if "i < Suc n" for i
    using that assms by (cases i) (auto simp: tried_def attempt_Suc attempt_0)
  with assms(1) show ?thesis by (auto simp: tried_def attempt_Suc)
qed

lemma note_name_error_sent [simp]: "sent (note_name_error m s) = sent s"
  by (simp add: note_name_error_def)

lemma query_servers_tried:
  "query_servers E tcp req nss res0 s = Inr (res, s') \<Longrightarrow> nss \<noteq> [] \<Longrightarrow>
   \<exists>n. tried E tcp req nss (sent s) n res (sent s')"
proof (induction nss arbitrary: res0 s)
  case (Cons ns nss)
  obtain r err where x: "exchange E tcp ns req (sent s) = (r, err)" by fastforce
  have stop: "\<exists>n. tried E tcp req (ns # nss) (sent s) n res (sent s')"
    if "res = (r, err)" "sent s' = sent s @ [(ns, req)]" "nss = [] \<or> accepted E (r, err)"
    by (rule exI [of _ 0]) (use that x in \<open>auto simp: tried_def attempt_0\<close>)
  have go: "\<exists>n. tried E tcp req (ns # nss) (sent s) n res (sent s')"
    if "query_servers E tcp req nss (r, err) s1 = Inr (res, s')" "sent s1 = sent s @ [(ns, req)]"
       "\<not> accepted E (r, err)" for s1
  proof (cases "nss = []")
    case True
    with that stop show ?thesis by simp
  next
    case False
    from Cons.IH [OF that(1) False] that(2) obtain n
      where "tried E tcp req nss (sent s @ [(ns, req)]) n res (sent s')" by auto
    from tried_Cons [OF this] that(3) x show ?thesis by auto
  qed
  show ?case
  proof (cases err)
    case (Some e)
    with Cons.prems(1) x go [of "s\<lparr>sent := sent s @ [(ns, req)]\<rparr>"] show ?thesis
      by (auto simp: go_bind)
  next
    case None
    with Cons.prems(1) x obtain m where m: "r = Some m"
      by (auto simp: go_bind split: option.splits)
    let ?s1 = "note_name_error m (s\<lparr>sent := sent s @ [(ns, req)]\<rparr>)"
    show ?thesis
    proof (cases "cfg_rcache_non_negative (conf E) \<and> m_rcode m \<noteq> rcode_success")
      case True
      with Cons.prems(1) x None m go [of ?s1] show ?thesis by (auto simp: go_bind Let_def)
    next
      case False
      with Cons.prems(1) x None m have "res = (r, err)" "s' = ?s1" by (auto simp: go_bind Let_def)
      with stop False None m show ?thesis by auto
    qed
  qed
qed simp

lemma choose_servers_sent:
  assumes "choose_servers E req s = Inr (nss, s1)"
  shows "sent s1 = sent s"
proof -
  obtain zones where z: "cfg_stub (conf E) = Some zones"
    using assms by (auto simp: choose_servers_def split: option.split_asm)
  show ?thesis
  proof (cases "zones = fmempty")
    case True
    with assms z show ?thesis by (simp add: choose_servers_def)
  next
    case False
    with assms z obtain n where "query_name req = Inr n"
      by (auto simp: choose_servers_def go_bind)
    with assms z False show ?thesis
      by (cases "matching_zone n (stub_order E (length (sent s)) (fmdom zones))")
        (auto simp: choose_servers_def)
  qed
qed

text \<open>
  C14. Upstream servers are tried in the order of the list chosen for the query, each at most once,
  until one gives an acceptable result: no error and, with \<open>rcache-non-negative\<close>, a success
  response. The result is that of the last server tried, and nothing else is sent.
\<close>

theorem forward_query_tries_in_order:
  assumes "forward_query E req tcp s = Inr (res, s')" "choose_servers E req s = Inr (nss, s1)"
    and "nss \<noteq> []"
  shows "\<exists>n. tried E tcp req nss (sent s) n res (sent s')"
proof -
  have "sent s1 = sent s" by (rule choose_servers_sent [OF assms(2)])
  moreover have "query_servers E tcp req nss (None, None) s1 = Inr (res, s')"
    using assms(1,2) by (simp add: forward_query_def)
  ultimately show ?thesis using query_servers_tried assms(3) by metis
qed

theorem forward_query_tries_in_order_witness:
  "\<exists>n. tried (sample_env sample_config silent) False sample_req [''10.0.0.1:53'', ''10.0.0.2:53''] [] n
         (None, Some ''i/o timeout'')
         [(''10.0.0.1:53'', sample_req), (''10.0.0.2:53'', sample_req)]"
  using forward_query_tries_in_order [of "sample_env sample_config silent" sample_req False
      "\<lparr>rcache = new_cache 2 60 0 False 0, stats = (\<lambda>_. 0), sent = [], written = []\<rparr>"]
  by (simp add: forward_query_def choose_servers_def sample_config_def silent_def query_name_def)

section \<open>When no server answers\<close>

definition always_fails :: "env \<Rightarrow> bool" where
  "always_fails E \<longleftrightarrow> (\<forall>tcp ns req past. snd (exchange E tcp ns req past) \<noteq> None)"

lemma always_fails_upstream: "always_fails E \<Longrightarrow> upstream_law E"
  unfolding always_fails_def upstream_law_def by (metis snd_conv)

definition failed :: "msg option \<times> string option \<Rightarrow> bool" where
  "failed res \<longleftrightarrow> snd res \<noteq> None"

lemma query_servers_fails:
  assumes "always_fails E" "m_question req \<noteq> []"
  shows "nss \<noteq> [] \<or> failed res \<Longrightarrow>
    returns (\<lambda>(res', s'). failed res' \<and> upstream_only s s') (query_servers E tcp req nss res s)"
proof (induction nss arbitrary: res s)
  case (Cons ns nss)
  obtain q where qn: "query_name req = Inr q"
    using assms(2) by (cases "m_question req") (auto simp: query_name_def)
  obtain r err where x: "exchange E tcp ns req (sent s) = (r, err)" by fastforce
  with assms(1) obtain e where e: "err = Some e"
    unfolding always_fails_def by (metis snd_conv not_None_eq)
  then show ?case
    using returns_upstream [OF Cons.IH [of "(r, err)" "s\<lparr>sent := sent s @ [(ns, req)]\<rparr>"]]
    by (simp add: qn x failed_def Let_def)
qed simp

lemma forward_query_fails:
  assumes "always_fails E" "stub_law E" "m_question req \<noteq> []" "cfg_nameservers (conf E) \<noteq> []"
  shows "returns (\<lambda>(res, s'). failed res \<and> upstream_only s s') (forward_query E req tcp s)"
  unfolding forward_query_def
proof (rule returns_bindI [OF choose_servers_ok [OF assms(2-4)]], clarify)
  fix nss :: "string list" and s1 assume n: "nss \<noteq> []" and s1: "upstream_only s s1"
  then show "returns (\<lambda>(res, s'). failed res \<and> upstream_only s s')
      (query_servers E tcp req nss (None, None) s1)"
    by (intro returns_upstream [OF _ s1] query_servers_fails assms) simp_all
qed

text \<open>The first search domain that applies ends the search.\<close>

lemma search_loop_fails:
  assumes "always_fails E" "stub_law E" "cfg_nameservers (conf E) \<noteq> []"
  shows "m_question (sa_req v) \<noteq> [] \<Longrightarrow> \<exists>d \<in> set ds. \<not> has_suffix name d \<Longrightarrow>
    returns (\<lambda>(v', s'). (sa_did v' \<and> sa_err v' \<noteq> None \<and> sa_nodata v' = sa_nodata v) \<and> upstream_only s s')
      (search_loop E tcp name ds v s)"
proof (induction ds)
  case (Cons d ds)
  show ?case
  proof (cases "has_suffix name d")
    case True
    with Cons show ?thesis by simp
  next
    case False
    let ?n = "to_lower (append_domain (lib E) name d)"
    obtain rq where rq: "set_query_name ?n (sa_req v) = Inr rq" "m_question rq \<noteq> []"
      using set_query_name_ok [OF Cons.prems(1), of ?n] by auto
    obtain r err s1 where x: "forward_query E rq tcp s = Inr ((r, err), s1)" "err \<noteq> None"
        "upstream_only s s1"
      using returnsD [OF forward_query_fails [OF assms(1,2) rq(2) assms(3)], of tcp s]
      by (auto simp: failed_def)
    then show ?thesis using False rq by (simp add: Let_def)
  qed
qed simp

lemma forward_search_fails:
  assumes "always_fails E" "stub_law E" "m_question req = [q]" "cfg_nameservers (conf E) \<noteq> []"
    and "\<exists>d \<in> set (cfg_search_domains (conf E)). \<not> has_suffix (q_name q) d"
  shows "returns (\<lambda>(res, s'). failed res \<and> upstream_only s s') (forward_search E req tcp s)"
proof -
  let ?v0 = "\<lparr>sa_req = req, sa_r = None, sa_nodata = None, sa_name = [], sa_err = None, sa_did = False\<rparr>"
  have q: "m_question (sa_req ?v0) \<noteq> []" using assms(3) by simp
  obtain v s1 where "search_loop E tcp (q_name q) (cfg_search_domains (conf E)) ?v0 s = Inr (v, s1)"
      and v: "sa_did v" "sa_err v \<noteq> None" "sa_nodata v = None" "upstream_only s s1"
    using returnsD [OF search_loop_fails [OF assms(1,2,4) q assms(5)], of tcp s] by auto
  moreover obtain e where "sa_err v = Some e" using v(2) by auto
  ultimately show ?thesis
    by (simp add: forward_search_def assms(3) search_result_def failed_def)
qed

text \<open>The variables after phases that all failed.\<close>

definition vars_failed :: "forward_vars \<Rightarrow> bool" where
  "vars_failed v \<longleftrightarrow>
     (did_absolute v \<longrightarrow> absolute_err v \<noteq> None) \<and> (did_search v \<longrightarrow> search_err v \<noteq> None)"

lemma absolute_lookup_fails:
  assumes "always_fails E" "stub_law E" "m_question req = [q]" "cfg_nameservers (conf E) \<noteq> []"
    and "vars_failed v"
  shows "\<exists>v' s'. absolute_lookup E req tcp v s = Inr (Inr v', s') \<and> vars_failed v' \<and>
    did_absolute v' \<and> absolute_err v' \<noteq> None \<and> search_err v' = search_err v \<and> upstream_only s s'"
proof -
  have "m_question req \<noteq> []" using assms(3) by simp
  from returnsD [OF forward_query_fails [OF assms(1,2) this assms(4)], of tcp s]
  obtain r err s1 where "forward_query E req tcp s = Inr ((r, err), s1)" "err \<noteq> None"
      "upstream_only s s1" by (auto simp: failed_def)
  with assms(5) show ?thesis by (simp add: absolute_lookup_def Let_def vars_failed_def)
qed

lemma search_lookup_fails:
  assumes "always_fails E" "stub_law E" "m_question req = [q]" "cfg_nameservers (conf E) \<noteq> []"
    and "\<exists>d \<in> set (cfg_search_domains (conf E)). \<not> has_suffix (q_name q) d" "vars_failed v"
  shows "\<exists>v' s'. search_lookup E req tcp v s = Inr (Inr v', s') \<and> vars_failed v' \<and>
    search_err v' \<noteq> None \<and> upstream_only s s'"
proof -
  from returnsD [OF forward_search_fails [OF assms(1-5)], of tcp s]
  obtain r err s1 where "forward_search E req tcp s = Inr ((r, err), s1)" "err \<noteq> None"
      "upstream_only s s1" by (auto simp: failed_def)
  with assms(6) show ?thesis by (simp add: search_lookup_def Let_def vars_failed_def)
qed

text \<open>
  A search that asks nobody: it is enabled, but the name ends in every search domain; and it is
  reached, because no absolute lookup was done before it.
\<close>

definition search_skipped :: "env \<Rightarrow> string \<Rightarrow> bool" where
  "search_skipped E name \<longleftrightarrow>
     (let C = conf E; dots = count_label (lib E) name - 1 in
      cfg_enable_search C \<and> cfg_search_domains C \<noteq> [] \<and>
      list_all (has_suffix name) (cfg_search_domains C) \<and> \<not> (cfg_ndots C \<le> dots \<and> cfg_fwd_ndots C \<le> dots))"

lemma vars_failed_start [simp]:
  "vars_failed \<lparr>absolute_res = None, absolute_err = None, search_res = None, search_err = None,
     did_absolute = False, did_search = False\<rparr>"
  by (simp add: vars_failed_def)

lemma forward_phases_fail:
  assumes "always_fails E" "stub_law E" "m_question req = [q]" "cfg_nameservers (conf E) \<noteq> []"
    and "\<not> search_skipped E (q_name q)"
  shows "\<exists>v s'. forward_phases E req tcp (count_label (lib E) (q_name q) - 1) s = Inr (Inr v, s') \<and>
    vars_failed v \<and> upstream_only s s'"
proof -
  let ?C = "conf E" and ?dots = "count_label (lib E) (q_name q) - 1"
  let ?v0 = "\<lparr>absolute_res = None, absolute_err = None, search_res = None, search_err = None,
              did_absolute = False, did_search = False\<rparr>"
  note absolute = absolute_lookup_fails [OF assms(1-4) vars_failed_start, of tcp s]
  show ?thesis
  proof (cases "cfg_ndots ?C \<le> ?dots \<and> cfg_fwd_ndots ?C \<le> ?dots")
    case True
    with absolute show ?thesis by (auto simp: forward_phases_def and_then_def)
  next
    case first: False
    show ?thesis
    proof (cases "cfg_enable_search ?C \<and> cfg_search_domains ?C \<noteq> []")
      case True
      then have "\<exists>d \<in> set (cfg_search_domains ?C). \<not> has_suffix (q_name q) d"
        using first assms(5) by (auto simp: search_skipped_def Let_def list_all_iff)
      from search_lookup_fails [OF assms(1-4) this vars_failed_start, of tcp s] first True
      show ?thesis by (auto simp: forward_phases_def and_then_def)
    next
      case False
      with first absolute show ?thesis
        by (cases "cfg_fwd_ndots ?C \<le> ?dots") (auto simp: forward_phases_def and_then_def Let_def)
    qed
  qed
qed

lemma forward_all_fail:
  assumes "always_fails E" "stub_law E" "m_question req = [q]"
    and "\<not> refuses E (count_label (lib E) (q_name q) - 1)" "\<not> search_skipped E (q_name q)"
  shows "\<exists>s1. upstream_only (inc_stat ForwardCount s) s1 \<and>
    serve_dns_forward E tcp req stale_res s
      = Inr (negative_reply (set_rcode (lib E) new_msg req rcode_server_failure) stale_res s1)"
proof -
  have n: "cfg_nameservers (conf E) \<noteq> []" using assms(4) by (simp add: refuses_def)
  obtain v s1 where "forward_phases E req tcp (count_label (lib E) (q_name q) - 1) (inc_stat ForwardCount s)
      = Inr (Inr v, s1)" "vars_failed v" "upstream_only (inc_stat ForwardCount s) s1"
    using forward_phases_fail [OF assms(1-3) n assms(5)] by blast
  then show ?thesis using assms(3,4)
    by (intro exI [of _ s1])
      (auto simp: serve_dns_forward_def query_name_def Let_def forward_end_def vars_failed_def)
qed

text \<open>
  C15. When no upstream server answers, the client gets the stale answer if there is one and
  SERVFAIL otherwise, exactly one of the counters of stale answers and of failures counts it, and
  the cache is left alone: for every request that is not refused, unless the search asks nobody
  (\<open>search_skipped\<close>), which is the case of the next property.
\<close>

theorem all_upstreams_fail_reply:
  assumes "always_fails E" "stub_law E" "m_question req = [q]"
    and "\<not> refuses E (count_label (lib E) (q_name q) - 1)" "\<not> search_skipped E (q_name q)"
  shows "\<exists>m s'. serve_dns_forward E tcp req stale_res s = Inr ((m, stale_res \<noteq> None), s') \<and>
    m = (case stale_res of Some st \<Rightarrow> st
         | None \<Rightarrow> set_rcode (lib E) new_msg req rcode_server_failure) \<and>
    written s' = written s @ [m] \<and> rcache s' = rcache s \<and>
    stats s' StaleCacheHit = stats s StaleCacheHit + of_bool (stale_res \<noteq> None) \<and>
    stats s' RequestFail = stats s RequestFail + of_bool (stale_res = None)"
proof -
  obtain s1 where s1: "upstream_only (inc_stat ForwardCount s) s1" "serve_dns_forward E tcp req stale_res s
      = Inr (negative_reply (set_rcode (lib E) new_msg req rcode_server_failure) stale_res s1)"
    using forward_all_fail [OF assms] by blast
  then show ?thesis
    by (cases stale_res) (auto simp: negative_reply_def upstream_only_def)
qed

definition sample_server :: server where
  "sample_server =
     \<lparr>rcache = sample_cache 3 9 20, stats = (\<lambda>_. 0), sent = [], written = []\<rparr>"

lemma sample_server_simps [simp]:
  "rcache sample_server = sample_cache 3 9 20" "written sample_server = []" "sent sample_server = []"
  by (simp_all add: sample_server_def)

lemma silent_fails [simp]: "always_fails (sample_env C silent)"
  by (simp add: always_fails_def silent_def)

lemma sample_config_simps [simp]:
  "cfg_stub sample_config = Some fmempty" "cfg_search_domains sample_config = []"
  "cfg_nameservers sample_config \<noteq> []" "\<not> cfg_no_rec sample_config"
  "\<not> cfg_rcache_non_negative sample_config" "cfg_fwd_ndots sample_config = 0"
  "0 < cfg_rstale_ttl sample_config" "cfg_ndots sample_config = 1"
  "\<not> cfg_enable_search sample_config"
  by (simp_all add: sample_config_def)

lemma sample_count_label [simp]: "count_label sample_lib ''a.b.'' = 2"
  by (simp add: sample_lib_def)

theorem all_upstreams_fail_reply_witness:
  "\<exists>m s'. serve_dns_forward (sample_env sample_config silent) False sample_req None sample_server
      = Inr ((m, None \<noteq> None), s') \<and>
    m = (case None of Some st \<Rightarrow> st | None \<Rightarrow> set_rcode sample_lib new_msg sample_req rcode_server_failure) \<and>
    written s' = written sample_server @ [m] \<and> rcache s' = rcache sample_server \<and>
    stats s' StaleCacheHit = stats sample_server StaleCacheHit + of_bool (None \<noteq> None) \<and>
    stats s' RequestFail = stats sample_server RequestFail + of_bool (None = None)"
  using all_upstreams_fail_reply [where E = "sample_env sample_config silent"
      and req = sample_req and q = sample_q and stale_res = None and s = sample_server and tcp = False]
  by (simp add: refuses_def search_skipped_def)

section \<open>Which queries are sent where\<close>

text \<open>
  The servers a name may be sent to: those of a stub zone whose name is a suffix of it, and the
  general name servers only when there is no such zone.
\<close>

definition server_for :: "env \<Rightarrow> string \<Rightarrow> string \<Rightarrow> bool" where
  "server_for E name ns \<longleftrightarrow>
     (\<exists>zones. cfg_stub (conf E) = Some zones \<and>
        (if \<exists>z. z |\<in>| fmdom zones \<and> has_suffix name z
         then \<exists>z srv. fmlookup zones z = Some srv \<and> has_suffix name z \<and> ns \<in> set srv
         else ns \<in> set (cfg_nameservers (conf E))))"

lemma matching_zone_None: "matching_zone name zs = None \<longleftrightarrow> (\<forall>z \<in> set zs. \<not> has_suffix name z)"
  by (induction name zs rule: matching_zone.induct) auto

lemma choose_servers_for:
  assumes "choose_servers E req s = Inr (nss, s1)" "m_question req = [q]"
    and "\<And>n. is_order (stub_order E n)" "ns \<in> set nss"
  shows "server_for E (q_name q) ns"
proof -
  obtain zones where z: "cfg_stub (conf E) = Some zones"
    using assms(1) by (auto simp: choose_servers_def split: option.split_asm)
  let ?keys = "stub_order E (length (sent s)) (fmdom zones)"
  show ?thesis
  proof (cases "zones = fmempty")
    case True
    with assms z show ?thesis by (simp add: choose_servers_def server_for_def)
  next
    case False
    show ?thesis
    proof (cases "matching_zone (q_name q) ?keys")
      case None
      with assms z False have "nss = cfg_nameservers (conf E)"
        by (simp add: choose_servers_def query_name_def)
      moreover have "\<not> (\<exists>z. z |\<in>| fmdom zones \<and> has_suffix (q_name q) z)"
        using None is_orderD(2) [OF assms(3)] by (auto simp: matching_zone_None)
      ultimately show ?thesis using z assms(4) by (auto simp: server_for_def)
    next
      case (Some zone)
      with matching_zone_in [OF Some] is_orderD(2) [OF assms(3)]
      have zone: "zone |\<in>| fmdom zones" "has_suffix (q_name q) zone" by auto
      then obtain srv where srv: "fmlookup zones zone = Some srv" by (auto simp: fmdom_lookup_iff)
      with Some assms(1,2) z False have "nss = srv" by (simp add: choose_servers_def query_name_def)
      with srv zone z assms(4) show ?thesis by (auto simp: server_for_def)
    qed
  qed
qed

lemma query_servers_sent:
  assumes "query_servers E tcp req nss res0 s = Inr (res, s')"
  shows "\<exists>xs. set xs \<subseteq> set nss \<and> sent s' = sent s @ map (\<lambda>ns. (ns, req)) xs"
proof (cases "nss = []")
  case True
  with assms have "s' = s" by simp
  then show ?thesis by (intro exI [of _ "[]"]) simp
next
  case False
  from query_servers_tried [OF assms False] obtain n
    where "sent s' = sent s @ map (\<lambda>ns. (ns, req)) (take (Suc n) nss)"
    by (auto simp: tried_def)
  then show ?thesis using set_take_subset [of "Suc n" nss] by blast
qed

lemma forward_query_sent:
  assumes "forward_query E req tcp s = Inr (res, s')" "m_question req = [q]"
    and "\<And>n. is_order (stub_order E n)"
  shows "\<exists>new. sent s' = sent s @ new \<and> list_all (\<lambda>(ns, m). m = req \<and> server_for E (q_name q) ns) new"
proof -
  obtain nss s1 where c: "choose_servers E req s = Inr (nss, s1)"
      and x: "query_servers E tcp req nss (None, None) s1 = Inr (res, s')"
    using assms(1) by (auto simp: forward_query_def go_bind)
  from query_servers_sent [OF x] choose_servers_sent [OF c] obtain xs
    where "set xs \<subseteq> set nss" "sent s' = sent s @ map (\<lambda>ns. (ns, req)) xs" by auto
  then show ?thesis using choose_servers_for [OF c assms(2,3)]
    by (intro exI [of _ "map (\<lambda>ns. (ns, req)) xs"]) (auto simp: list_all_iff)
qed

text \<open>A query made for a request: the request itself, or its name qualified by a search domain.\<close>

definition qualified_query :: "env \<Rightarrow> msg \<Rightarrow> question \<Rightarrow> string list \<Rightarrow> string \<times> msg \<Rightarrow> bool" where
  "qualified_query E req q ds x \<longleftrightarrow>
     (\<exists>d \<in> set ds. \<not> has_suffix (q_name q) d \<and>
        (let n = to_lower (append_domain (lib E) (q_name q) d) in
         snd x = req\<lparr>m_question := [q\<lparr>q_name := n\<rparr>]\<rparr> \<and> server_for E n (fst x)))"

lemma search_loop_sent:
  assumes "\<And>n. is_order (stub_order E n)"
  shows "search_loop E tcp (q_name q) ds v s = Inr (v', s') \<Longrightarrow>
    \<exists>n. sa_req v = req\<lparr>m_question := [q\<lparr>q_name := n\<rparr>]\<rparr> \<Longrightarrow>
    \<exists>new. sent s' = sent s @ new \<and> list_all (qualified_query E req q ds) new"
proof (induction ds arbitrary: v s)
  case (Cons d ds)
  have weaken: "list_all (qualified_query E req q (d # ds)) new" if "list_all (qualified_query E req q ds) new" for new
    using that by (auto simp: list_all_iff qualified_query_def)
  show ?case
  proof (cases "has_suffix (q_name q) d")
    case True
    with Cons.prems(1) have "search_loop E tcp (q_name q) ds v s = Inr (v', s')" by simp
    from Cons.IH [OF this Cons.prems(2)] weaken show ?thesis by blast
  next
    case False
    let ?n = "to_lower (append_domain (lib E) (q_name q) d)"
    let ?rq = "req\<lparr>m_question := [q\<lparr>q_name := ?n\<rparr>]\<rparr>"
    have rq: "set_query_name ?n (sa_req v) = Inr ?rq"
      using Cons.prems(2) by (cases q) (auto simp: set_query_name_def)
    obtain r err s1 where x: "forward_query E ?rq tcp s = Inr ((r, err), s1)"
      using Cons.prems(1) False rq by (auto simp: go_bind Let_def)
    from forward_query_sent [OF x _ assms] obtain n1 where n1: "sent s1 = sent s @ n1"
        "list_all (\<lambda>(ns, m). m = ?rq \<and> server_for E ?n ns) n1"
      by auto
    then have q1: "list_all (qualified_query E req q (d # ds)) n1"
      using False by (auto simp: list_all_iff qualified_query_def Let_def split: prod.splits)
    have stop: "?thesis" if "sent s' = sent s1" using that n1 q1 by auto
    have go: "?thesis" if "search_loop E tcp (q_name q) ds v2 s2 = Inr (v', s')" "sent s2 = sent s1"
        "sa_req v2 = ?rq" for v2 s2
    proof -
      from Cons.IH [OF that(1)] that(3) obtain n2 where "sent s' = sent s2 @ n2"
          "list_all (qualified_query E req q ds) n2" by blast
      with n1 q1 that(2) weaken show ?thesis by (intro exI [of _ "n1 @ n2"]) simp
    qed
    show ?thesis
    proof (cases err)
      case (Some e)
      with Cons.prems(1) False rq x have "s' = s1" by (simp add: Let_def)
      with stop show ?thesis by simp
    next
      case None
      with Cons.prems(1) False rq x obtain m where m: "r = Some m"
        by (cases r) (auto simp: Let_def)
      show ?thesis using Cons.prems(1) False rq x None m stop go
        by (auto simp: Let_def split: if_splits)
    qed
  qed
qed simp

lemma forward_search_sent:
  assumes "forward_search E req tcp s = Inr (res, s')" "m_question req = [q]"
    and "\<And>n. is_order (stub_order E n)"
  shows "\<exists>new. sent s' = sent s @ new \<and> list_all (qualified_query E req q (cfg_search_domains (conf E))) new"
proof -
  let ?v0 = "\<lparr>sa_req = req, sa_r = None, sa_nodata = None, sa_name = [], sa_err = None, sa_did = False\<rparr>"
  obtain v where v: "search_loop E tcp (q_name q) (cfg_search_domains (conf E)) ?v0 s = Inr (v, s')"
    using assms(1,2) by (auto simp: forward_search_def go_bind)
  have "\<exists>n. sa_req ?v0 = req\<lparr>m_question := [q\<lparr>q_name := n\<rparr>]\<rparr>"
    by (rule exI [of _ "q_name q"]) (use assms(2) in \<open>cases req; simp\<close>)
  from search_loop_sent [OF assms(3) v this] show ?thesis .
qed

text \<open>
  The queries a request may cause: the request as it is, when its name has enough dots to be
  forwarded, and qualified names, when search is enabled; each to a server meant for its name.
\<close>

definition query_allowed :: "env \<Rightarrow> msg \<Rightarrow> question \<Rightarrow> string \<times> msg \<Rightarrow> bool" where
  "query_allowed E req q x \<longleftrightarrow>
     \<not> cfg_no_rec (conf E) \<and>
     (snd x = req \<and> cfg_fwd_ndots (conf E) \<le> count_label (lib E) (q_name q) - 1 \<and>
        server_for E (q_name q) (fst x) \<or>
      cfg_enable_search (conf E) \<and> qualified_query E req q (cfg_search_domains (conf E)) x)"

definition only_sends :: "env \<Rightarrow> msg \<Rightarrow> question \<Rightarrow> server \<Rightarrow> server \<Rightarrow> bool" where
  "only_sends E req q s s' \<longleftrightarrow> (\<exists>new. sent s' = sent s @ new \<and> list_all (query_allowed E req q) new)"

lemma only_sends_same [simp]: "sent s' = sent s \<Longrightarrow> only_sends E req q s s'"
  by (auto simp: only_sends_def)

lemma only_sends_trans: "only_sends E req q s s' \<Longrightarrow> only_sends E req q s' s'' \<Longrightarrow> only_sends E req q s s''"
  unfolding only_sends_def by (metis append_assoc list_all_append)

lemma only_sends_eq: "only_sends E req q s s' \<Longrightarrow> sent s'' = sent s' \<Longrightarrow> only_sends E req q s s''"
  by (simp add: only_sends_def)

lemma only_sends_from: "only_sends E req q s s' \<Longrightarrow> sent s0 = sent s \<Longrightarrow> only_sends E req q s0 s'"
  by (simp add: only_sends_def)

lemma absolute_lookup_sent:
  assumes "absolute_lookup E req tcp v s = Inr (x, s')" "m_question req = [q]"
    and "\<And>n. is_order (stub_order E n)" "\<not> cfg_no_rec (conf E)"
    and "cfg_fwd_ndots (conf E) \<le> count_label (lib E) (q_name q) - 1"
  shows "only_sends E req q s s'"
proof -
  obtain r err s1 where f: "forward_query E req tcp s = Inr ((r, err), s1)" and s': "sent s' = sent s1"
    using assms(1)
    by (auto simp: absolute_lookup_def go_bind Let_def split: if_splits option.split_asm)
  from forward_query_sent [OF f assms(2,3)] have "only_sends E req q s s1"
    using assms(4,5) unfolding only_sends_def list_all_iff query_allowed_def by fastforce
  with s' show ?thesis by (rule only_sends_eq [rotated])
qed

lemma search_lookup_sent:
  assumes "search_lookup E req tcp v s = Inr (x, s')" "m_question req = [q]"
    and "\<And>n. is_order (stub_order E n)" "\<not> cfg_no_rec (conf E)" "cfg_enable_search (conf E)"
  shows "only_sends E req q s s'"
proof -
  obtain r err s1 where f: "forward_search E req tcp s = Inr ((r, err), s1)" and s': "sent s' = sent s1"
    using assms(1)
    by (auto simp: search_lookup_def go_bind Let_def split: if_splits option.split_asm)
  from forward_search_sent [OF f assms(2,3)] have "only_sends E req q s s1"
    using assms(4,5) unfolding only_sends_def list_all_iff query_allowed_def by blast
  with s' show ?thesis by (rule only_sends_eq [rotated])
qed

lemma and_then_sent:
  assumes "and_then p f = Inr (x, s')"
    and "\<And>y s1. p = Inr (y, s1) \<Longrightarrow> only_sends E req q s s1"
    and "\<And>v s1 y s2. f v s1 = Inr (y, s2) \<Longrightarrow> only_sends E req q s1 s2"
  shows "only_sends E req q s s'"
proof -
  obtain y s1 where y: "p = Inr (y, s1)"
      "(case y of Inl done \<Rightarrow> Inr (Inl done, s1) | Inr v \<Rightarrow> f v s1) = Inr (x, s')"
    using assms(1) by (auto simp: and_then_def go_bind)
  from assms(2) [OF y(1)] y(2) assms(3) show ?thesis
    by (cases y) (auto intro: only_sends_trans)
qed

lemma forward_phases_sent:
  assumes "forward_phases E req tcp (count_label (lib E) (q_name q) - 1) s = Inr (x, s')"
    and "m_question req = [q]" "\<And>n. is_order (stub_order E n)" "\<not> cfg_no_rec (conf E)"
  shows "only_sends E req q s s'"
proof -
  note absolute = absolute_lookup_sent [OF _ assms(2-4)]
  note search = search_lookup_sent [OF _ assms(2-4)]
  show ?thesis
    using assms(1) unfolding forward_phases_def Let_def
    by (elim and_then_sent)
      (auto elim!: absolute search and_then_sent split: if_splits)
qed

lemma forward_end_sent:
  "forward_end E req stale_res v s = Inr (x, s') \<Longrightarrow> sent s' = sent s"
  by (auto simp: forward_end_def negative_reply_def split: if_splits option.split_asm)

lemma serve_dns_forward_sent:
  assumes "serve_dns_forward E tcp req stale_res s = Inr (x, s')" "m_question req = [q]"
    and "\<And>n. is_order (stub_order E n)"
  shows "only_sends E req q s s'"
proof -
  let ?dots = "count_label (lib E) (q_name q) - 1"
  show ?thesis
  proof (cases "refuses E ?dots")
    case True
    with assms(1,2) show ?thesis
      by (auto simp: serve_dns_forward_def query_name_def Let_def intro!: only_sends_same)
  next
    case False
    then have rec: "\<not> cfg_no_rec (conf E)" by (simp add: refuses_def)
    obtain y s1 where p: "forward_phases E req tcp ?dots (inc_stat ForwardCount s) = Inr (y, s1)"
        "(case y of Inl result \<Rightarrow> Inr (result, s1) | Inr v \<Rightarrow> forward_end E req stale_res v s1) = Inr (x, s')"
      using assms(1,2) False by (auto simp: serve_dns_forward_def query_name_def Let_def go_bind)
    have "only_sends E req q s s1"
      using forward_phases_sent [OF p(1) assms(2,3) rec] by (rule only_sends_from) simp
    moreover have "sent s' = sent s1"
      using p(2) by (cases y) (auto dest: forward_end_sent)
    ultimately show ?thesis by (rule only_sends_eq)
  qed
qed

lemma serve_dns_reverse_sent:
  assumes "serve_dns_reverse E tcp req s = Inr (x, s')" "m_question req = [q]"
    and "\<And>n. is_order (stub_order E n)"
  shows "only_sends E req q s s'"
  using assms serve_dns_forward_sent [OF _ assms(2,3)]
  by (auto simp: serve_dns_reverse_def Let_def split: sum.split_asm if_splits)

section \<open>A name that ends in a search domain\<close>

text \<open>
  C16. An outage can turn into a name error: when every upstream server fails and the search asks
  nobody, because the request's name ends in every search domain and no absolute lookup was done
  before, the search reports a name error, and the client gets that instead of SERVFAIL, in the one
  reply to its request.
\<close>

theorem outage_reported_as_name_error:
  assumes "always_fails E" "stub_law E" "rcode_law (lib E)" "reply_law (lib E)"
    and "m_question req = [q]" "\<not> cfg_no_rec (conf E)" "cfg_nameservers (conf E) \<noteq> []"
    and "search_skipped E (q_name q)"
  shows "\<exists>m s'. serve_dns_forward E tcp req None s = Inr ((m, False), s') \<and> written s' = written s @ [m] \<and>
    m = set_rcode (lib E) new_msg req rcode_name_error \<and> m_rcode m = rcode_name_error \<and> m_id m = m_id req \<and>
    rcache s' = rcache s"
proof -
  let ?dots = "count_label (lib E) (q_name q) - 1"
  let ?v0 = "\<lparr>absolute_res = None, absolute_err = None, search_res = None, search_err = None,
              did_absolute = False, did_search = False\<rparr>"
  let ?nx = "set_rcode (lib E) new_msg req rcode_name_error"
  let ?v1 = "?v0\<lparr>search_res := Some ?nx, search_err := None, did_search := True\<rparr>"
  have skip: "cfg_enable_search (conf E)" "cfg_search_domains (conf E) \<noteq> []"
      "\<forall>d \<in> set (cfg_search_domains (conf E)). has_suffix (q_name q) d"
      "\<not> (cfg_ndots (conf E) \<le> ?dots \<and> cfg_fwd_ndots (conf E) \<le> ?dots)"
    using assms(8) by (auto simp: search_skipped_def Let_def list_all_iff)
  have loop: "search_loop E tcp (q_name q) ds v s = Inr (v, s)" if "\<forall>d \<in> set ds. has_suffix (q_name q) d"
    for ds v s
    using that by (induction ds) auto
  have rc: "m_rcode (set_rcode (lib E) new_msg req rc) = rc" "m_id (set_rcode (lib E) new_msg req rc) = m_id req" for rc
    using set_rcode_simps [OF assms(4,3)] by simp_all
  have search: "search_lookup E req tcp ?v0 s = Inr (Inr ?v1, s)" for s
    by (simp add: search_lookup_def forward_search_def assms(5) loop [OF skip(3)]
        search_result_def rc)
  have absolute: "\<exists>v' s'. absolute_lookup E req tcp ?v1 s = Inr (Inr v', s') \<and> did_absolute v' \<and>
      absolute_err v' \<noteq> None \<and> search_err v' = None \<and> did_search v' \<and> search_res v' = Some ?nx \<and> upstream_only s s'" for s
  proof -
    have "m_question req \<noteq> []" using assms(5) by simp
    from returnsD [OF forward_query_fails [OF assms(1,2) this assms(7)], of tcp s]
    show ?thesis by (auto simp: failed_def absolute_lookup_def Let_def)
  qed
  obtain v s1 where v: "forward_phases E req tcp ?dots (inc_stat ForwardCount s) = Inr (Inr v, s1)"
      "did_search v" "search_err v = None" "search_res v = Some ?nx" "did_absolute v \<longrightarrow> absolute_err v \<noteq> None"
      "upstream_only (inc_stat ForwardCount s) s1"
  proof (cases "cfg_fwd_ndots (conf E) \<le> ?dots")
    case True
    with absolute [of "inc_stat ForwardCount s"] skip search that show thesis
      by (auto simp: forward_phases_def and_then_def)
  next
    case False
    with skip search that show thesis by (auto simp: forward_phases_def and_then_def)
  qed
  have "\<not> refuses E ?dots" using assms(6,7) skip by (auto simp: refuses_def)
  with v assms(5) rc show ?thesis
    by (auto simp: serve_dns_forward_def query_name_def Let_def forward_end_def negative_reply_def upstream_only_def)
qed

theorem outage_reported_as_name_error_witness:
  "\<exists>m s'. serve_dns_forward
      (sample_env (sample_config\<lparr>cfg_enable_search := True, cfg_search_domains := [''b.''], cfg_ndots := 2\<rparr>) silent)
      False sample_req None sample_server = Inr ((m, False), s') \<and> written s' = written sample_server @ [m] \<and>
    m = set_rcode sample_lib new_msg sample_req rcode_name_error \<and> m_rcode m = rcode_name_error \<and>
    m_id m = m_id sample_req \<and> rcache s' = rcache sample_server"
  using outage_reported_as_name_error [where q = sample_q and req = sample_req and s = sample_server and tcp = False
      and E = "sample_env (sample_config\<lparr>cfg_enable_search := True, cfg_search_domains := [''b.''], cfg_ndots := 2\<rparr>) silent"]
  by (simp add: has_suffix_drop search_skipped_def)

end
