(* ===== verification/Server.thy ===== *)
theory Server
  imports Forward Server_Msg
begin

text \<open>
  The request handler, \<open>ServeDNS\<close> of \<open>server/server.go\<close>. Its cache operations are numbered in the
  order they are made (the index of \<open>clock\<close> and \<open>visit\<close>): 0 is the lookup of a fresh answer, 1
  the insertion of a local or reverse answer or the lookup of a stale one, 2 the insertion of a
  forwarded answer.
\<close>

section \<open>The client\<close>

datatype remote_addr = UDPAddr | TCPAddr | OtherAddr

definition is_tcp :: "remote_addr \<Rightarrow> bool" where
  "is_tcp a = (case a of TCPAddr \<Rightarrow> True | _ \<Rightarrow> False)"

text \<open>The size of the client's buffer and the DNSSEC flag, from the OPT record and the transport.\<close>

definition client_limits :: "dns_lib \<Rightarrow> remote_addr \<Rightarrow> msg \<Rightarrow> (16 word) \<times> bool" where
  "client_limits L a req =
     (let (bufsize, dnssec) = (case is_edns0 L req of Some (sz, do_bit) \<Rightarrow> (sz, do_bit) | None \<Rightarrow> (512, False));
          bufsize = (if bufsize < 512 then 512 else bufsize);
          bufsize = (if is_tcp a then word_of_int (max_msg_size - 1) else bufsize)
      in (bufsize, dnssec))"

section \<open>Replies\<close>

definition new_server :: "config \<Rightarrow> server" where
  "new_server C =
     \<lparr>rcache = new_cache (cfg_rcache C) (cfg_rcache_ttl C) (cfg_rstale_ttl C)
                 (cfg_rcache_ttl_from_resp C) (cfg_rcache_ttl_max C),
      stats = (\<lambda>_. 0), sent = [], written = []\<rparr>"

definition server_failure :: "dns_lib \<Rightarrow> msg \<Rightarrow> msg \<Rightarrow> msg" where
  "server_failure L m req = set_rcode L m req rcode_server_failure"

definition insert_answer :: "env \<Rightarrow> nat \<Rightarrow> string \<Rightarrow> msg \<Rightarrow> server \<Rightarrow> server" where
  "insert_answer E i key m s =
     s\<lparr>rcache := insert_message (clock E i) (visit E i) key m (rcache s)\<rparr>"

text \<open>A fresh answer from the cache.\<close>

definition cached_reply :: "env \<Rightarrow> bool \<Rightarrow> 16 word \<Rightarrow> msg \<Rightarrow> question \<Rightarrow> msg \<Rightarrow> server \<Rightarrow> server" where
  "cached_reply E tcp bufsize req q m1 s =
     (let (m1', overflow) = fit (lib E) m1 (if tcp then max_msg_size else uint bufsize) tcp in
      if tcp \<and> overflow then write_msg (server_failure (lib E) new_msg req) s
      else
        (let m2 = (if q_type q = type_A \<or> q_type q = type_AAAA
                   then m1'\<lparr>m_answer := round_robin (cfg_round_robin (conf E)) (rand E) (m_answer m1')\<rparr>
                   else m1')
         in inc_stat CacheHit (write_msg m2 s)))"

text \<open>The deferred function, for the local answer \<open>m\<close>.\<close>

definition local_reply ::
  "env \<Rightarrow> bool \<Rightarrow> 16 word \<Rightarrow> bool \<Rightarrow> msg \<Rightarrow> question \<Rightarrow> msg \<Rightarrow> server \<Rightarrow> server"
where
  "local_reply E tcp bufsize dnssec req q m s =
     (if m_rcode m = rcode_server_failure then write_msg m s
      else
        (let (m', overflow) = fit (lib E) m (if tcp then max_msg_size else uint bufsize) tcp in
         if tcp \<and> overflow then write_msg (server_failure (lib E) new_msg req) s
         else write_msg m' (insert_answer E 1 (cache_key q dnssec tcp) m' s)))"

definition reverse_zone :: "question \<Rightarrow> string \<Rightarrow> bool" where
  "reverse_zone q name \<longleftrightarrow>
     q_type q = type_PTR \<and> has_suffix name ''.in-addr.arpa.'' \<or> has_suffix name ''.ip6.arpa.''"

definition txt_record :: "question \<Rightarrow> string \<Rightarrow> rr" where
  "txt_record q t =
     \<lparr>rr_name = q_name q, rr_type = type_TXT, rr_class = class_CHAOS, rr_ttl = 0, rr_data = RD_TXT [t]\<rparr>"

text \<open>The answer to a question of class CHAOS.\<close>

definition chaos_answer :: "env \<Rightarrow> msg \<Rightarrow> question \<Rightarrow> string \<Rightarrow> msg \<Rightarrow> msg" where
  "chaos_answer E req q name m0 =
     (let m = m0\<lparr>m_authoritative := True\<rparr> in
      if q_type q = type_TXT \<and> (name = ''version.bind.'' \<or> name = ''version.server.'')
      then m\<lparr>m_answer := [txt_record q (version E)]\<rparr>
      else if q_type q = type_TXT \<and> (name = ''hostname.bind.'' \<or> name = ''id.server.'')
      then m\<lparr>m_answer := [txt_record q ''localhost'']\<rparr>
      else set_rcode (lib E) (set_reply (lib E) m req) req rcode_server_failure)"

section \<open>The handler\<close>

definition hosts_records :: "env \<Rightarrow> question \<Rightarrow> string \<Rightarrow> rr list" where
  "hosts_records E q name =
     (if q_type q = type_A \<or> q_type q = type_AAAA \<or> q_type q = type_ANY
      then (case address_records (find_hosts E) (cfg_hosts_ttl (conf E)) q name of
              Inl err \<Rightarrow> [] | Inr records \<Rightarrow> records)
      else [])"

definition stale_enabled :: "env \<Rightarrow> bool" where
  "stale_enabled E \<longleftrightarrow> cfg_rstale_ttl (conf E) > 0"

text \<open>The last part: look for a stale answer, forward, and store what came back.\<close>

definition forward_and_store ::
  "env \<Rightarrow> bool \<Rightarrow> bool \<Rightarrow> msg \<Rightarrow> question \<Rightarrow> msg \<Rightarrow> server \<Rightarrow> server go"
where
  "forward_and_store E tcp dnssec req q m s =
     bind_go (hit (clock E 1) q dnssec tcp (m_id m) (stale_enabled E) True (rcache s)) (\<lambda>(m_stale, c).
     bind_go (serve_dns_forward E tcp req m_stale (s\<lparr>rcache := c\<rparr>)) (\<lambda>((resp, stale_res), s).
       Inr (if \<not> (cfg_rcache_non_negative (conf E) \<and> m_rcode resp \<noteq> rcode_success) \<and> \<not> stale_res
            then insert_answer E 2 (cache_key q dnssec tcp) resp s else s)))"

text \<open>The reply the handler starts from.\<close>

definition base_reply :: "dns_lib \<Rightarrow> msg \<Rightarrow> msg" where
  "base_reply L req =
     (set_reply L new_msg req)
       \<lparr>m_authoritative := False, m_recursion_available := True, m_compress := True\<rparr>"

definition serve_dns :: "env \<Rightarrow> remote_addr \<Rightarrow> msg \<Rightarrow> server \<Rightarrow> server go" where
  "serve_dns E a req s =
     (let m = base_reply (lib E) req in
      case m_question req of
        [] \<Rightarrow> Inl IndexRange
      | q # _ \<Rightarrow>
          (let name = to_lower (q_name q);
               (bufsize, dnssec) = client_limits (lib E) a req;
               tcp = is_tcp a;
               s = inc_stat RequestCount s;
               s = (if dnssec then inc_stat DnssecOkCount s else s)
           in bind_go (hit (clock E 0) q dnssec tcp (m_id m) (stale_enabled E) False (rcache s))
             (\<lambda>(m1, c).
               (let s = s\<lparr>rcache := c\<rparr> in
                case m1 of
                  Some m1 \<Rightarrow> Inr (cached_reply E tcp bufsize req q m1 s)
                | None \<Rightarrow>
                    (let s = inc_stat CacheMiss s; records = hosts_records E q name in
                     if length records > 0
                     then Inr (local_reply E tcp bufsize dnssec req q
                                 (m\<lparr>m_answer := m_answer m @ records\<rparr>) s)
                     else if reverse_zone q name then
                       bind_go (serve_dns_reverse E tcp req s) (\<lambda>((resp, stale_res), s).
                         Inr (if \<not> stale_res
                              then insert_answer E 1 (cache_key q dnssec tcp) resp s else s))
                     else if q_class q = class_CHAOS
                     then Inr (local_reply E tcp bufsize dnssec req q (chaos_answer E req q name m) s)
                     else forward_and_store E tcp dnssec req q m s)))))"

text \<open>Requests served one after the other, each with its own surroundings.\<close>

fun serve_all :: "(env \<times> remote_addr \<times> msg) list \<Rightarrow> server \<Rightarrow> server go" where
  "serve_all [] s = Inr s"
| "serve_all ((E, a, req) # rs) s = bind_go (serve_dns E a req s) (serve_all rs)"

end
