(* ===== verification/Server_Correct.thy ===== *)
theory Server_Correct
  imports Server Forward_Correct Cache_Correct Hostsfile_Correct
begin

text \<open>
  Correctness of the request handler: totality, one matching reply per request over any sequence
  of requests, the counters, what is cached, and when the upstream servers are asked.
\<close>

section \<open>Replies and what the cache holds\<close>

definition name_types :: "msg \<Rightarrow> (string \<times> (16 word)) list" where
  "name_types m = map (\<lambda>q. (q_name q, q_type q)) (m_question m)"

text \<open>A reply matches a request: same identifier, and the question's name and type are repeated.\<close>

definition reply_matches :: "msg \<Rightarrow> msg \<Rightarrow> bool" where
  "reply_matches req m \<longleftrightarrow> m_id m = m_id req \<and> name_types m = name_types req"

text \<open>A request as the DNS library hands it over: one question, about an absolute name.\<close>

definition question_ok :: "question \<Rightarrow> bool" where
  "question_ok q \<longleftrightarrow> has_suffix (q_name q) ''.'' \<and> type_in_use q"

definition request_ok :: "msg \<Rightarrow> bool" where
  "request_ok req \<longleftrightarrow> (\<exists>q. m_question req = [q] \<and> question_ok q)"

text \<open>The surroundings keep their contracts.\<close>

definition env_ok :: "env \<Rightarrow> bool" where
  "env_ok E \<longleftrightarrow> env_laws E \<and> (\<forall>i. orders_ok (visit E i))"

text \<open>Every cached message answers the question of its key.\<close>

definition cache_echo :: "cache \<Rightarrow> bool" where
  "cache_echo c \<longleftrightarrow>
     (\<forall>k m. stored_msg c k = Some m \<longrightarrow>
        (\<exists>q d t. question_ok q \<and> k = cache_key q d t \<and> name_types m = [(q_name q, q_type q)]))"

lemma cache_key_eqD:
  "cache_key q d t = cache_key q' d' t' \<Longrightarrow> question_ok q \<Longrightarrow> question_ok q' \<Longrightarrow>
   q_name q = q_name q' \<and> q_type q = q_type q'"
  unfolding question_ok_def by (blast dest: cache_key_inj)

lemma cache_echoD:
  assumes "cache_echo c" "stored_msg c (cache_key q d t) = Some m" "question_ok q"
  shows "name_types m = [(q_name q, q_type q)]"
proof -
  from assms(1,2) obtain q' d' t' where "question_ok q'" "cache_key q d t = cache_key q' d' t'"
      "name_types m = [(q_name q', q_type q')]"
    unfolding cache_echo_def by blast
  with cache_key_eqD [OF this(2) assms(3) this(1)] show ?thesis by simp
qed

lemma cache_echo_insert:
  assumes "cache_echo c" "orders_ok pick" "question_ok q" "name_types m = [(q_name q, q_type q)]"
  shows "cache_echo (insert_message clk pick (cache_key q d t) m c)"
  unfolding cache_echo_def
proof (intro allI impI)
  fix k x assume "stored_msg (insert_message clk pick (cache_key q d t) m c) k = Some x"
  from insert_stored [OF assms(2) this] assms(1,3,4)
  show "\<exists>q d t. question_ok q \<and> k = cache_key q d t \<and> name_types x = [(q_name q, q_type q)]"
    unfolding cache_echo_def by blast
qed

lemma cache_echo_hit:
  assumes "cache_echo c" "hit clk q d t mid ks rs c = Inr (r, c')"
  shows "cache_echo c'"
  using assms hit_stored [OF assms(2)] unfolding cache_echo_def by blast

lemma cache_echo_new: "cache_echo (new_cache cap t st fr tmax)"
  by (simp add: cache_echo_def stored_msg_def new_cache_def)

lemma hit_reply_matches:
  assumes "cache_echo c" "hit clk q d t (m_id req) ks rs c = Inr (Some m, c')"
    and "m_question req = [q]" "question_ok q"
  shows "reply_matches req m"
proof -
  obtain m0 where m0: "stored_msg c (cache_key q d t) = Some m0" "m = hit_reply (m_id req) m0"
    using hit_answer [OF assms(2)] by blast
  from cache_echoD [OF assms(1) m0(1) assms(4)] m0(2) assms(3) show ?thesis
    by (simp add: reply_matches_def hit_reply_def name_types_def)
qed

section \<open>Counters\<close>

text \<open>
  What one request does to the counters. A request is a hit or a miss but not both (it is neither
  when a cached answer overflows a TCP message); failures, stale answers and forwarded queries
  are counted on misses only.
\<close>

definition request_counts :: "stats \<Rightarrow> stats \<Rightarrow> bool" where
  "request_counts c c' \<longleftrightarrow>
     c' RequestCount = c RequestCount + 1 \<and>
     c CacheHit \<le> c' CacheHit \<and> c CacheMiss \<le> c' CacheMiss \<and>
     c' CacheHit + c' CacheMiss \<le> c CacheHit + c CacheMiss + 1 \<and>
     c RequestFail \<le> c' RequestFail \<and> c StaleCacheHit \<le> c' StaleCacheHit \<and>
     c' RequestFail + c' StaleCacheHit - c RequestFail - c StaleCacheHit \<le> c' CacheMiss - c CacheMiss \<and>
     c ForwardCount \<le> c' ForwardCount \<and>
     c' ForwardCount - c ForwardCount \<le> c' CacheMiss - c CacheMiss \<and>
     c DnssecOkCount \<le> c' DnssecOkCount \<and> c' DnssecOkCount \<le> c DnssecOkCount + 1 \<and>
     c' RefusedCount = c RefusedCount \<and> c' LookupCount = c LookupCount \<and>
     c' DnssecCacheMiss = c DnssecCacheMiss"

text \<open>The counters after \<open>RequestCount\<close> and \<open>DnssecOkCount\<close> have been counted.\<close>

definition counted_request :: "bool \<Rightarrow> server \<Rightarrow> server" where
  "counted_request dnssec s =
     (let s = inc_stat RequestCount s in if dnssec then inc_stat DnssecOkCount s else s)"

lemma counted_request_simps [simp]:
  "rcache (counted_request d s) = rcache s" "written (counted_request d s) = written s"
  "sent (counted_request d s) = sent s"
  by (simp_all add: counted_request_def Let_def)

lemma request_counts_simps [simp]:
  "request_counts (stats s) (stats (counted_request d s))"
  "request_counts (stats s) (inc CacheHit (stats (counted_request d s)))"
  "request_counts (stats s) (inc CacheMiss (stats (counted_request d s)))"
  by (cases d; simp add: counted_request_def Let_def request_counts_def)+

lemma request_counts_miss:
  "forward_counts b (inc CacheMiss (stats (counted_request d s))) (stats s') \<Longrightarrow>
   request_counts (stats s) (stats s')"
  by (cases d; cases b) (simp_all add: counted_request_def Let_def request_counts_def forward_counts_def)

lemma forward_counts_refl [simp]: "forward_counts False c c"
  by (simp add: forward_counts_def)

section \<open>The parts of the handler\<close>

lemma fit_keeps [simp]:
  "m_id (fst (fit L m sz tcp)) = m_id m" "m_question (fst (fit L m sz tcp)) = m_question m"
  "m_rcode (fst (fit L m sz tcp)) = m_rcode m"
  by (simp_all add: fit_def Let_def)

lemma server_failure_matches:
  assumes "env_laws E" "m_question req = [q]"
  shows "reply_matches req (server_failure (lib E) new_msg req)"
  using set_rcode_simps [OF env_lawsD(1,2) [OF assms(1)]] assms(2)
  by (simp add: server_failure_def reply_matches_def name_types_def)

text \<open>One message written, the cache still consistent, the counters as above.\<close>

definition request_effect :: "msg \<Rightarrow> server \<Rightarrow> server \<Rightarrow> bool" where
  "request_effect req s s' \<longleftrightarrow>
     cache_echo (rcache s') \<and> (\<exists>m. written s' = written s @ [m] \<and> reply_matches req m) \<and>
     request_counts (stats s) (stats s') \<and> (\<exists>new. sent s' = sent s @ new)"

lemma reply_matches_simps [simp]:
  "reply_matches req (m\<lparr>m_answer := rs\<rparr>) = reply_matches req m"
  "reply_matches req (m\<lparr>m_authoritative := b\<rparr>) = reply_matches req m"
  "reply_matches req (m\<lparr>m_compress := b\<rparr>) = reply_matches req m"
  "reply_matches req (m\<lparr>m_recursion_available := b\<rparr>) = reply_matches req m"
  "reply_matches req (fst (fit L m sz tcp)) = reply_matches req m"
  by (simp_all add: reply_matches_def name_types_def)

lemma insert_answer_simps [simp]:
  "rcache (insert_answer E i k m s) = insert_message (clock E i) (visit E i) k m (rcache s)"
  "written (insert_answer E i k m s) = written s" "sent (insert_answer E i k m s) = sent s"
  "stats (insert_answer E i k m s) = stats s"
  by (simp_all add: insert_answer_def)

lemma cached_reply_ok:
  assumes "env_laws E" "m_question req = [q]" "reply_matches req m1" "cache_echo (rcache s1)"
    and "s1 = (counted_request d s)\<lparr>rcache := c\<rparr>"
  shows "request_effect req s (cached_reply E tcp bufsize req q m1 s1)"
proof -
  have "request_counts (stats s) (stats (cached_reply E tcp bufsize req q m1 s1))"
    by (simp add: cached_reply_def assms(5) Let_def case_prod_beta)
  then show ?thesis
    using assms(3-5) server_failure_matches [OF assms(1,2)]
    by (auto simp: request_effect_def cached_reply_def Let_def case_prod_beta)
qed

lemma local_reply_ok:
  assumes "env_ok E" "m_question req = [q]" "question_ok q" "reply_matches req m"
    and "cache_echo (rcache s1)"
    and "s1 = inc_stat CacheMiss ((counted_request d s)\<lparr>rcache := c\<rparr>)"
  shows "request_effect req s (local_reply E tcp bufsize dnssec req q m s1)"
proof -
  have env: "env_laws E" "orders_ok (visit E 1)" using assms(1) by (simp_all add: env_ok_def)
  have "request_counts (stats s) (stats (local_reply E tcp bufsize dnssec req q m s1))"
    by (simp add: local_reply_def assms(6) Let_def case_prod_beta)
  moreover have "name_types (fst (fit (lib E) m sz tcp)) = [(q_name q, q_type q)]" for sz
    using assms(2,4) by (simp add: reply_matches_def name_types_def)
  ultimately show ?thesis
    using assms(4-6) server_failure_matches [OF env(1) assms(2)] env(2) assms(3)
    by (auto simp: request_effect_def local_reply_def Let_def case_prod_beta intro: cache_echo_insert)
qed

lemma reply_to_matches: "reply_to req m \<Longrightarrow> reply_matches req m"
  by (simp add: reply_to_def reply_matches_def name_types_def)

text \<open>A forwarded answer, stored or not; a stale one is never stored.\<close>

lemma forwarded_ok:
  assumes "env_ok E" "m_question req = [q]" "question_ok q" "cache_echo c"
    and "forward_effect req stale_res s1 ((m, st), s2)"
    and "s1 = (inc_stat CacheMiss ((counted_request d s)\<lparr>rcache := c'\<rparr>))\<lparr>rcache := c\<rparr>"
    and "\<And>x. stale_res = Some x \<Longrightarrow> reply_matches req x"
    and "st \<Longrightarrow> \<not> store"
  shows "request_effect req s (if store then insert_answer E i (cache_key q dn tcp) m s2 else s2)"
proof -
  have o: "orders_ok (visit E i)" using assms(1) by (simp add: env_ok_def)
  have m: "reply_matches req m"
    using assms(5,7) by (auto intro: reply_to_matches split: if_splits)
  then have "name_types m = [(q_name q, q_type q)]"
    using assms(2) by (simp add: reply_matches_def name_types_def)
  moreover have "request_counts (stats s) (stats s2)"
    using assms(5,6) by (intro request_counts_miss [of st d]) simp
  ultimately show ?thesis using m assms(3-6) o
    by (auto simp: request_effect_def intro: cache_echo_insert)
qed

lemma chaos_matches:
  assumes "reply_law (lib E)" "rcode_law (lib E)" "m_question req = [q]" "reply_matches req m"
  shows "reply_matches req (chaos_answer E req q name m)"
  using assms(4) set_rcode_simps [OF assms(1,2)] assms(3)
  by (auto simp: chaos_answer_def Let_def reply_matches_def name_types_def)

text \<open>The handler after the first lookup, for a fresh answer and for a miss.\<close>

lemma serve_dns_fresh:
  assumes "m_question req = [q]" "client_limits (lib E) a req = (bufsize, d)"
    and "hit (clock E 0) q d (is_tcp a) (m_id (base_reply (lib E) req)) (stale_enabled E) False (rcache s)
           = Inr (Some m1, c)"
  shows "serve_dns E a req s
    = Inr (cached_reply E (is_tcp a) bufsize req q m1 ((counted_request d s)\<lparr>rcache := c\<rparr>))"
  using assms(3) by (cases d) (simp_all add: serve_dns_def assms(1,2) counted_request_def Let_def)

definition serve_miss ::
  "env \<Rightarrow> bool \<Rightarrow> 16 word \<Rightarrow> bool \<Rightarrow> msg \<Rightarrow> question \<Rightarrow> server \<Rightarrow> server go"
where
  "serve_miss E tcp bufsize d req q s =
     (let m = base_reply (lib E) req; name = to_lower (q_name q); records = hosts_records E q name in
      if records \<noteq> []
      then Inr (local_reply E tcp bufsize d req q (m\<lparr>m_answer := m_answer m @ records\<rparr>) s)
      else if reverse_zone q name then
        bind_go (serve_dns_reverse E tcp req s) (\<lambda>((resp, stale_res), s).
          Inr (if \<not> stale_res then insert_answer E 1 (cache_key q d tcp) resp s else s))
      else if q_class q = class_CHAOS
      then Inr (local_reply E tcp bufsize d req q (chaos_answer E req q name m) s)
      else forward_and_store E tcp d req q m s)"

lemma serve_dns_miss:
  assumes "m_question req = [q]" "client_limits (lib E) a req = (bufsize, d)"
    and "hit (clock E 0) q d (is_tcp a) (m_id (base_reply (lib E) req)) (stale_enabled E) False (rcache s)
           = Inr (None, c)"
  shows "serve_dns E a req s
    = serve_miss E (is_tcp a) bufsize d req q (inc_stat CacheMiss ((counted_request d s)\<lparr>rcache := c\<rparr>))"
  using assms(3)
  by (cases d) (simp_all add: serve_dns_def serve_miss_def assms(1,2) counted_request_def Let_def)

text \<open>Every run of the handler is one of the two.\<close>

lemma serve_dns_cases:
  assumes "m_question req = [q]"
  obtains (fresh) bufsize d m1 c where "client_limits (lib E) a req = (bufsize, d)"
      "hit (clock E 0) q d (is_tcp a) (m_id (base_reply (lib E) req)) (stale_enabled E) False (rcache s)
         = Inr (Some m1, c)"
      "serve_dns E a req s
         = Inr (cached_reply E (is_tcp a) bufsize req q m1 ((counted_request d s)\<lparr>rcache := c\<rparr>))"
    | (miss) bufsize d c where "client_limits (lib E) a req = (bufsize, d)"
      "hit (clock E 0) q d (is_tcp a) (m_id (base_reply (lib E) req)) (stale_enabled E) False (rcache s)
         = Inr (None, c)"
      "serve_dns E a req s = serve_miss E (is_tcp a) bufsize d req q
         (inc_stat CacheMiss ((counted_request d s)\<lparr>rcache := c\<rparr>))"
proof -
  obtain bufsize d where lim: "client_limits (lib E) a req = (bufsize, d)" by fastforce
  obtain r c where h: "hit (clock E 0) q d (is_tcp a) (m_id (base_reply (lib E) req)) (stale_enabled E)
      False (rcache s) = Inr (r, c)"
    using hit_returns by blast
  show thesis
  proof (cases r)
    case (Some m1)
    with fresh [OF lim] h serve_dns_fresh [OF assms lim] show thesis by blast
  next
    case None
    with miss [OF lim] h serve_dns_miss [OF assms lim] show thesis by blast
  qed
qed

lemma serve_miss_cases:
  assumes "serve_miss E tcp bufsize d req q s = Inr s'"
  obtains (hosts) "hosts_records E q (to_lower (q_name q)) \<noteq> []"
      "s' = local_reply E tcp bufsize d req q ((base_reply (lib E) req)\<lparr>m_answer :=
              m_answer (base_reply (lib E) req) @ hosts_records E q (to_lower (q_name q))\<rparr>) s"
    | (reverse) resp st s2 where "reverse_zone q (to_lower (q_name q))"
      "serve_dns_reverse E tcp req s = Inr ((resp, st), s2)"
      "s' = (if \<not> st then insert_answer E 1 (cache_key q d tcp) resp s2 else s2)"
    | (chaos) "\<not> reverse_zone q (to_lower (q_name q))" "q_class q = class_CHAOS"
      "s' = local_reply E tcp bufsize d req q
              (chaos_answer E req q (to_lower (q_name q)) (base_reply (lib E) req)) s"
    | (forward) m_stale c resp st s2 where "\<not> reverse_zone q (to_lower (q_name q))"
      "hit (clock E 1) q d tcp (m_id (base_reply (lib E) req)) (stale_enabled E) True (rcache s)
         = Inr (m_stale, c)"
      "serve_dns_forward E tcp req m_stale (s\<lparr>rcache := c\<rparr>) = Inr ((resp, st), s2)"
      "s' = (if \<not> (cfg_rcache_non_negative (conf E) \<and> m_rcode resp \<noteq> rcode_success) \<and> \<not> st
             then insert_answer E 2 (cache_key q d tcp) resp s2 else s2)"
proof -
  let ?name = "to_lower (q_name q)"
  note simps = serve_miss_def Let_def
  show thesis
  proof (cases "hosts_records E q ?name = []")
    case False
    with assms hosts show thesis by (simp add: simps)
  next
    case none: True
    show thesis
    proof (cases "reverse_zone q ?name")
      case True
      with none assms obtain resp st s2 where "serve_dns_reverse E tcp req s = Inr ((resp, st), s2)"
          "s' = (if \<not> st then insert_answer E 1 (cache_key q d tcp) resp s2 else s2)"
        by (simp add: simps) (auto simp: go_bind)
      with True reverse show thesis by blast
    next
      case rev: False
      show thesis
      proof (cases "q_class q = class_CHAOS")
        case True
        with none rev assms chaos show thesis by (simp add: simps)
      next
        case False
        obtain m_stale c where h: "hit (clock E 1) q d tcp (m_id (base_reply (lib E) req))
            (stale_enabled E) True (rcache s) = Inr (m_stale, c)"
          using hit_returns by blast
        have "forward_and_store E tcp d req q (base_reply (lib E) req) s = Inr s'"
          using none rev False assms by (simp add: simps)
        then have "bind_go (serve_dns_forward E tcp req m_stale (s\<lparr>rcache := c\<rparr>)) (\<lambda>((resp, st), s2).
            Inr (if \<not> (cfg_rcache_non_negative (conf E) \<and> m_rcode resp \<noteq> rcode_success) \<and> \<not> st
                 then insert_answer E 2 (cache_key q d tcp) resp s2 else s2)) = Inr s'"
          by (simp add: forward_and_store_def h del: One_nat_def)
        then obtain p where "serve_dns_forward E tcp req m_stale (s\<lparr>rcache := c\<rparr>) = Inr p"
            "(\<lambda>((resp, st), s2). Inr (if \<not> (cfg_rcache_non_negative (conf E) \<and> m_rcode resp \<noteq> rcode_success)
                \<and> \<not> st then insert_answer E 2 (cache_key q d tcp) resp s2 else s2)) p = (Inr s' :: server go)"
          unfolding bind_go_Inr by blast
        then obtain resp st s2 where
            "serve_dns_forward E tcp req m_stale (s\<lparr>rcache := c\<rparr>) = Inr ((resp, st), s2)"
            "s' = (if \<not> (cfg_rcache_non_negative (conf E) \<and> m_rcode resp \<noteq> rcode_success) \<and> \<not> st
                   then insert_answer E 2 (cache_key q d tcp) resp s2 else s2)"
          by (cases p) (simp add: case_prod_beta del: One_nat_def, metis prod.collapse)
        with rev h forward show thesis by blast
      qed
    qed
  qed
qed

lemma base_reply_simps:
  assumes "reply_law L"
  shows "m_id (base_reply L req) = m_id req" "m_rcode (base_reply L req) = rcode_success"
    and "m_answer (base_reply L req) = []"
    and "m_question req = [q] \<Longrightarrow> m_question (base_reply L req) = [q]"
  using set_reply_simps [OF assms, where m = new_msg and req = req] by (simp_all add: base_reply_def new_msg_def)

lemma forward_and_store_ok:
  assumes "env_ok E" "m_question req = [q]" "question_ok q" "m_id m = m_id req"
    and "s1 = inc_stat CacheMiss ((counted_request d s)\<lparr>rcache := c\<rparr>)" "cache_echo c"
  shows "returns (request_effect req s) (forward_and_store E tcp dn req q m s1)"
proof -
  have L: "env_laws E" using assms(1) by (simp add: env_ok_def)
  obtain m_stale c1 where h: "hit (clock E 1) q dn tcp (m_id m) (stale_enabled E) True c = Inr (m_stale, c1)"
    using hit_returns by blast
  have st: "reply_matches req x" if "m_stale = Some x" for x
    using hit_reply_matches [OF assms(6) _ assms(2,3)] h that assms(4) by metis
  obtain resp b s2 where f: "serve_dns_forward E tcp req m_stale (s1\<lparr>rcache := c1\<rparr>) = Inr ((resp, b), s2)"
      and e: "forward_effect req m_stale (s1\<lparr>rcache := c1\<rparr>) ((resp, b), s2)"
    using returnsD [OF serve_dns_forward_ok [OF L assms(2)], of tcp m_stale "s1\<lparr>rcache := c1\<rparr>"]
    by auto
  have "cache_echo c1" by (rule cache_echo_hit [OF assms(6) h])
  from forwarded_ok [OF assms(1-3) this e _ st] assms(5) f h show ?thesis
    by (simp add: forward_and_store_def)
qed

lemma serve_miss_ok:
  assumes "env_ok E" "m_question req = [q]" "question_ok q" "cache_echo c"
    and "s2 = inc_stat CacheMiss ((counted_request d s)\<lparr>rcache := c\<rparr>)"
  shows "returns (request_effect req s) (serve_miss E tcp bufsize d req q s2)"
proof -
  have L: "env_laws E" using assms(1) by (simp add: env_ok_def)
  note laws = env_lawsD [OF L]
  let ?m = "base_reply (lib E) req" and ?recs = "hosts_records E q (to_lower (q_name q))"
  have m: "reply_matches req ?m" "m_id ?m = m_id req"
    using base_reply_simps [OF laws(1)] assms(2) by (simp_all add: reply_matches_def name_types_def)
  consider "?recs \<noteq> []" | "?recs = []" "reverse_zone q (to_lower (q_name q))"
    | "?recs = []" "\<not> reverse_zone q (to_lower (q_name q))" "q_class q = class_CHAOS"
    | "?recs = []" "\<not> reverse_zone q (to_lower (q_name q))" "q_class q \<noteq> class_CHAOS"
    by blast
  then show ?thesis
  proof cases
    case 1
    with local_reply_ok [OF assms(1-3) _ _ assms(5)] m assms(4,5)
    show ?thesis by (simp add: serve_miss_def Let_def)
  next
    case 2
    obtain resp b s3 where f: "serve_dns_reverse E tcp req s2 = Inr ((resp, b), s3)"
        and e: "forward_effect req None s2 ((resp, b), s3)"
      using returnsD [OF serve_dns_reverse_ok [OF L assms(2)], of tcp s2] by auto
    from forwarded_ok [OF assms(1-4) e _ _, where store = "\<not> b" and d = d and s = s] 2 f assms(5)
    show ?thesis by (simp add: serve_miss_def Let_def)
  next
    case 3
    with local_reply_ok [OF assms(1-3) chaos_matches [OF laws(1,2) assms(2) m(1)] _ assms(5)] assms(4,5)
    show ?thesis by (simp add: serve_miss_def Let_def)
  next
    case 4
    with forward_and_store_ok [OF assms(1-3) m(2) assms(5,4)]
    show ?thesis by (simp add: serve_miss_def Let_def)
  qed
qed

lemma serve_dns_ok:
  assumes "env_ok E" "request_ok req" "cache_echo (rcache s)"
  shows "returns (request_effect req s) (serve_dns E a req s)"
proof -
  obtain q where q: "m_question req = [q]" "question_ok q"
    using assms(2) by (auto simp: request_ok_def)
  have L: "env_laws E" using assms(1) by (simp add: env_ok_def)
  have id: "m_id (base_reply (lib E) req) = m_id req"
    by (rule base_reply_simps [OF env_lawsD(1) [OF L]])
  from q(1) show ?thesis
  proof (cases rule: serve_dns_cases [of req q E a s])
    case (fresh bufsize d m1 c)
    have "cache_echo c" by (rule cache_echo_hit [OF assms(3) fresh(2)])
    moreover have "reply_matches req m1"
      using hit_reply_matches [OF assms(3) _ q] fresh(2) id by metis
    ultimately show ?thesis using cached_reply_ok [OF L q(1) _ _ refl] fresh(3) by simp
  next
    case (miss bufsize d c)
    with serve_miss_ok [OF assms(1) q cache_echo_hit [OF assms(3) miss(2)] refl] show ?thesis by simp
  qed
qed

section \<open>The cache stays within its capacity while requests are served\<close>

lemma insert_answer_ok:
  "env_ok E \<Longrightarrow> cache_ok (rcache s) \<Longrightarrow> cache_ok (rcache (insert_answer E i k m s)) \<and>
   capacity (rcache (insert_answer E i k m s)) = capacity (rcache s)"
  by (simp add: env_ok_def cache_ok_insert)

lemma local_reply_cache:
  "env_ok E \<Longrightarrow> cache_ok (rcache s) \<Longrightarrow> cache_ok (rcache (local_reply E tcp b d req q m s)) \<and>
   capacity (rcache (local_reply E tcp b d req q m s)) = capacity (rcache s)"
  using insert_answer_ok by (simp add: local_reply_def Let_def case_prod_beta env_ok_def cache_ok_insert)

lemma forward_cache:
  assumes "env_ok E" "m_question req = [q]"
    and "serve_dns_forward E tcp req st s = Inr (x, s') \<or> serve_dns_reverse E tcp req s = Inr (x, s')"
  shows "rcache s' = rcache s"
proof -
  have L: "env_laws E" using assms(1) by (simp add: env_ok_def)
  show ?thesis
    using assms(3) returnsD [OF serve_dns_forward_ok [OF L assms(2)], of tcp st s]
      returnsD [OF serve_dns_reverse_ok [OF L assms(2)], of tcp s]
    by auto
qed

definition within :: "int \<Rightarrow> cache \<Rightarrow> bool" where
  "within cap c \<longleftrightarrow> cache_ok c \<and> capacity c = cap"

lemma within_hit: "within cap c \<Longrightarrow> hit clk q d t mid ks rs c = Inr (r, c') \<Longrightarrow> within cap c'"
  using cache_ok_hit unfolding within_def by blast

lemma serve_miss_within:
  assumes "env_ok E" "m_question req = [q]" "within cap (rcache s)"
    and "serve_miss E tcp b d req q s = Inr s'"
  shows "within cap (rcache s')"
  using assms(4)
proof (cases rule: serve_miss_cases)
  case (reverse resp st s2)
  have "within cap (rcache s2)" using forward_cache [OF assms(1,2)] reverse(2) assms(3) by metis
  with reverse(3) insert_answer_ok [OF assms(1)] show ?thesis by (auto simp: within_def)
next
  case (forward m_stale c resp st s2)
  have "rcache s2 = c" using forward_cache [OF assms(1,2)] forward(3) by fastforce
  with within_hit [OF assms(3) forward(2)] have "within cap (rcache s2)" by simp
  with forward(4) insert_answer_ok [OF assms(1)] show ?thesis by (auto simp: within_def)
qed (use assms(3) local_reply_cache [OF assms(1)] in \<open>auto simp: within_def\<close>)

lemma serve_dns_within:
  assumes "env_ok E" "m_question req = [q]" "within cap (rcache s)" "serve_dns E a req s = Inr s'"
  shows "within cap (rcache s')"
  using assms(2)
proof (cases rule: serve_dns_cases [of req q E a s])
  case (fresh b d m1 c)
  with assms(4) have "rcache s' = c" by (auto simp: cached_reply_def Let_def case_prod_beta)
  with within_hit [OF assms(3) fresh(2)] show ?thesis by simp
next
  case (miss b d c)
  let ?s2 = "inc_stat CacheMiss ((counted_request d s)\<lparr>rcache := c\<rparr>)"
  have "within cap (rcache ?s2)" using within_hit [OF assms(3) miss(2)] by simp
  from serve_miss_within [OF assms(1,2) this] miss(3) assms(4) show ?thesis by simp
qed

lemma serve_all_within:
  "\<forall>(E, a, req) \<in> set rs. env_ok E \<and> request_ok req \<Longrightarrow> within cap (rcache s) \<Longrightarrow>
   serve_all rs s = Inr s' \<Longrightarrow> within cap (rcache s')"
proof (induction rs arbitrary: s)
  case (Cons r rs)
  obtain E a req where r: "r = (E, a, req)" by (cases r) auto
  then obtain s1 where s1: "serve_dns E a req s = Inr s1" "serve_all rs s1 = Inr s'"
    using Cons.prems(3) by (auto simp: go_bind)
  have "env_ok E" "request_ok req" using Cons.prems(1) r by auto
  then have "within cap (rcache s1)"
    using serve_dns_within [OF _ _ Cons.prems(2) s1(1)] by (auto simp: request_ok_def)
  with Cons s1(2) show ?case by auto
qed simp

end
