(* ===== verification/Server_Props.thy ===== *)
theory Server_Props
  imports Server_Correct Upstream_Correct
begin

text \<open>
  The properties of the request handler as a whole.
\<close>

section \<open>Every request is answered\<close>

lemma serve_all_ok:
  "\<forall>(E, a, req) \<in> set rs. env_ok E \<and> request_ok req \<Longrightarrow> cache_echo (rcache s) \<Longrightarrow>
   returns (\<lambda>s'. cache_echo (rcache s') \<and>
      (\<exists>ms. written s' = written s @ ms \<and> list_all2 (\<lambda>(E, a, req) m. reply_matches req m) rs ms))
     (serve_all rs s)"
proof (induction rs arbitrary: s)
  case (Cons r rs)
  obtain E a req where r: "r = (E, a, req)" by (cases r) auto
  with Cons.prems have "env_ok E" "request_ok req" by auto
  from returnsD [OF serve_dns_ok [OF this Cons.prems(2)], of a] obtain s1
    where s1: "serve_dns E a req s = Inr s1" "request_effect req s s1" by blast
  then obtain m where m: "cache_echo (rcache s1)" "written s1 = written s @ [m]" "reply_matches req m"
    by (auto simp: request_effect_def)
  obtain s2 ms where s2: "serve_all rs s1 = Inr s2" "cache_echo (rcache s2)"
      "written s2 = written s1 @ ms" "list_all2 (\<lambda>(E, a, req) m. reply_matches req m) rs ms"
    using returnsD [OF Cons.IH [OF _ m(1)]] Cons.prems(1) by auto
  with r s1 m show ?case by auto
qed simp

lemma sample_request_ok [simp]: "request_ok sample_req"
  by (simp add: request_ok_def question_ok_def type_in_use_def sample_q_simps)

lemma sample_env_ok [simp]:
  "cfg_stub C = Some fmempty \<Longrightarrow> env_ok (sample_env C (answering rc))"
  "cfg_stub C = Some fmempty \<Longrightarrow> env_ok (sample_env C silent)"
  by (simp_all add: env_ok_def orders_ok_def)

section \<open>The counters agree\<close>

lemma request_counts_bounds:
  assumes "request_counts c c'" "c CacheHit + c CacheMiss \<le> c RequestCount"
    and "c RequestFail + c StaleCacheHit \<le> c CacheMiss" "c ForwardCount \<le> c CacheMiss"
    and "c DnssecOkCount \<le> c RequestCount" "0 \<le> c CacheHit" "0 \<le> c CacheMiss"
  shows "c' CacheHit + c' CacheMiss \<le> c' RequestCount"
    and "c' RequestFail + c' StaleCacheHit \<le> c' CacheMiss" "c' ForwardCount \<le> c' CacheMiss"
    and "c' DnssecOkCount \<le> c' RequestCount" "0 \<le> c' CacheHit" "0 \<le> c' CacheMiss"
  using assms unfolding request_counts_def by linarith+

definition counts_agree :: "nat \<Rightarrow> stats \<Rightarrow> bool" where
  "counts_agree n c \<longleftrightarrow>
     c RequestCount = int n \<and> 0 \<le> c CacheHit \<and> 0 \<le> c CacheMiss \<and>
     c CacheHit + c CacheMiss \<le> c RequestCount \<and>
     c RequestFail + c StaleCacheHit \<le> c CacheMiss \<and> c ForwardCount \<le> c CacheMiss \<and>
     c DnssecOkCount \<le> c RequestCount \<and>
     c RefusedCount = 0 \<and> c LookupCount = 0 \<and> c DnssecCacheMiss = 0"

lemma counts_agree_request:
  assumes "request_counts c c'" "counts_agree n c"
  shows "counts_agree (Suc n) c'"
  using request_counts_bounds [OF assms(1)] assms
  by (simp add: counts_agree_def request_counts_def)

lemma serve_all_counts:
  "\<forall>(E, a, req) \<in> set rs. env_ok E \<and> request_ok req \<Longrightarrow> cache_echo (rcache s) \<Longrightarrow>
   counts_agree n (stats s) \<Longrightarrow>
   returns (\<lambda>s'. counts_agree (n + length rs) (stats s')) (serve_all rs s)"
proof (induction rs arbitrary: s n)
  case (Cons r rs)
  obtain E a req where r: "r = (E, a, req)" by (cases r) auto
  with Cons.prems have "env_ok E" "request_ok req" by auto
  from returnsD [OF serve_dns_ok [OF this Cons.prems(2)], of a] obtain s1
    where s1: "serve_dns E a req s = Inr s1" "request_effect req s s1" by blast
  then have "counts_agree (Suc n) (stats s1)" "cache_echo (rcache s1)"
    using Cons.prems(3) counts_agree_request by (auto simp: request_effect_def)
  from Cons.IH [OF _ this(2,1)] Cons.prems(1) r s1(1) show ?case by simp
qed simp

text \<open>
  The counters agree with each other: after any sequence of requests, the request counter is
  their number; hits and misses together do not exceed it; failures and stale answers together,
  and forwarded queries, do not exceed the misses; and three counters that are reported, of
  refusals, of lookups and of DNSSEC misses, are still zero, because nothing ever counts them.
\<close>

lemma counters_agree:
  assumes "\<forall>(E, a, req) \<in> set rs. env_ok E \<and> request_ok req"
  shows "returns (\<lambda>s. counts_agree (length rs) (stats s)) (serve_all rs (new_server C))"
proof -
  have "cache_echo (rcache (new_server C))" "counts_agree 0 (stats (new_server C))"
    by (simp_all add: new_server_def cache_echo_new counts_agree_def)
  from serve_all_counts [OF assms this] show ?thesis by simp
qed

section \<open>What leaves the server\<close>

lemma serve_miss_sent:
  assumes "serve_miss E tcp bufsize d req q s = Inr s'" "m_question req = [q]"
    and "\<And>n. is_order (stub_order E n)"
  shows "only_sends E req q s s'"
  using assms(1)
proof (cases rule: serve_miss_cases)
  case (reverse resp st s2)
  show ?thesis
    by (rule only_sends_eq [OF serve_dns_reverse_sent [OF reverse(2) assms(2,3)]])
      (simp add: reverse(3))
next
  case (forward m_stale c resp st s2)
  have "only_sends E req q s s2"
    by (rule only_sends_from [OF serve_dns_forward_sent [OF forward(3) assms(2,3)]]) simp
  then show ?thesis by (rule only_sends_eq) (simp add: forward(4))
qed (auto simp: local_reply_def Let_def case_prod_beta)

lemma serve_dns_sent:
  assumes "serve_dns E a req s = Inr s'" "m_question req = [q]" "\<And>n. is_order (stub_order E n)"
  shows "only_sends E req q s s'"
  using assms(2)
proof (cases rule: serve_dns_cases [of req q E a s])
  case (fresh bufsize d m1 c)
  with assms(1) show ?thesis by (auto simp: cached_reply_def Let_def case_prod_beta)
next
  case (miss bufsize d c)
  with assms(1) have "serve_miss E (is_tcp a) bufsize d req q
      (inc_stat CacheMiss ((counted_request d s)\<lparr>rcache := c\<rparr>)) = Inr s'" by simp
  from serve_miss_sent [OF this assms(2,3)] show ?thesis by (rule only_sends_from) simp
qed

text \<open>
  C7. What leaves the server is bounded: every query a request causes is the request itself, sent
  only when its name has the dots that \<open>fwd-ndots\<close> asks for, or, with search enabled, the request
  with its name qualified by a search domain; and it goes to a server of a stub zone whose name
  ends the query's name, or to a general name server when there is no such zone. Nothing is sent
  when recursion is disabled.
\<close>

theorem queries_sent_are_allowed:
  assumes "serve_dns E a req s = Inr s'" "m_question req = [q]" "\<And>n. is_order (stub_order E n)"
  shows "\<exists>new. sent s' = sent s @ new \<and> list_all (query_allowed E req q) new"
  using serve_dns_sent [OF assms] by (simp add: only_sends_def)

theorem queries_sent_are_allowed_witness:
  "\<exists>s' new. serve_dns (sample_env sample_config silent) UDPAddr sample_req (new_server sample_config) = Inr s' \<and>
     sent s' = sent (new_server sample_config) @ new \<and>
     list_all (query_allowed (sample_env sample_config silent) sample_req sample_q) new"
proof -
  have "cache_echo (rcache (new_server sample_config))" by (simp add: new_server_def cache_echo_new)
  from returnsD [OF serve_dns_ok [OF sample_env_ok(2) [OF sample_config_simps(1)] sample_request_ok this], of UDPAddr] obtain s'
    where s': "serve_dns (sample_env sample_config silent) UDPAddr sample_req (new_server sample_config) = Inr s'"
    by auto
  from queries_sent_are_allowed [OF this, of sample_q] s' show ?thesis by simp
qed

section \<open>Local answers\<close>

lemma hit_none_live:
  assumes "live (clk 0) c (cache_key q d t) = None"
  shows "\<exists>c'. hit clk q d t mid ks False c = Inr (None, c')"
  using hit_live [of clk q d t mid ks c] assms by auto

text \<open>The surroundings of the witnesses with a hosts file and a later time.\<close>

definition late_env :: "config \<Rightarrow> env" where
  "late_env C = (sample_env C silent)\<lparr>clock := (\<lambda>_ _. 15)\<rparr>"

definition hosts_env :: env where
  "hosts_env = (sample_env sample_config silent)\<lparr>find_hosts := (\<lambda>_. Inr [[10, 0, 0, 1]])\<rparr>"

lemma late_env_simps [simp]:
  "lib (late_env C) = sample_lib" "conf (late_env C) = C" "clock (late_env C) = (\<lambda>_ _. 15)"
  "find_hosts (late_env C) = (\<lambda>_. Inr [])"
  "always_fails (late_env C)" "cfg_stub C = Some fmempty \<Longrightarrow> stub_law (late_env C)"
  by (simp_all add: late_env_def always_fails_def silent_def stub_law_def)

lemma hosts_env_simps [simp]:
  "lib hosts_env = sample_lib" "conf hosts_env = sample_config" "clock hosts_env = (\<lambda>_ _. 0)"
  "find_hosts hosts_env = (\<lambda>_. Inr [[10, 0, 0, 1]])" "visit hosts_env = (\<lambda>_ _. sorted_list_of_fset)"
  by (simp_all add: hosts_env_def)

lemma sample_limits [simp]: "client_limits sample_lib UDPAddr req = (512, False)"
  by (simp add: client_limits_def sample_lib_def is_tcp_def)

lemma uint_512 [simp]: "uint (512 :: 16 word) = 512"
  by code_simp

lemma is_tcp_simps [simp]: "is_tcp TCPAddr" "\<not> is_tcp UDPAddr" "\<not> is_tcp OtherAddr"
  by (simp_all add: is_tcp_def)

lemma sample_base_reply [simp]:
  "base_reply sample_lib req = new_msg\<lparr>m_id := m_id req, m_recursion_available := True,
     m_compress := True, m_question := (case m_question req of [] \<Rightarrow> [] | q # _ \<Rightarrow> [q])\<rparr>"
  by (simp add: base_reply_def sample_lib_def sample_reply_def new_msg_def split: list.split)

lemma hosts_local:
  assumes "m_question req = [q]" "reply_law (lib E)" "client_limits (lib E) a req = (bufsize, d)"
    and "live (clock E 0 0) (rcache s) (cache_key q d (is_tcp a)) = None"
    and "hosts_records E q (to_lower (q_name q)) = rs" "rs \<noteq> []"
    and "msg_len (lib E) ((base_reply (lib E) req)\<lparr>m_answer := rs\<rparr>)
           < (if is_tcp a then max_msg_size else uint bufsize)"
  shows "\<exists>c s'. serve_dns E a req s = Inr s' \<and> sent s' = sent s \<and>
    written s' = written s @ [(base_reply (lib E) req)\<lparr>m_answer := rs\<rparr>] \<and>
    hit (clock E 0) q d (is_tcp a) (m_id req) (stale_enabled E) False (rcache s) = Inr (None, c) \<and>
    rcache s' = insert_message (clock E 1) (visit E 1) (cache_key q d (is_tcp a))
                  ((base_reply (lib E) req)\<lparr>m_answer := rs\<rparr>) c"
proof -
  let ?m = "(base_reply (lib E) req)\<lparr>m_answer := rs\<rparr>"
  obtain c where h: "hit (clock E 0) q d (is_tcp a) (m_id (base_reply (lib E) req)) (stale_enabled E) False
      (rcache s) = Inr (None, c)"
    using hit_none_live [of "clock E 0", OF assms(4)] by blast
  have fit: "fit (lib E) ?m (if is_tcp a then max_msg_size else uint bufsize) (is_tcp a) = (?m, False)"
    using assms(7) by (simp add: fit_def Let_def)
  have "m_answer (base_reply (lib E) req) = []" "m_rcode ?m = rcode_success" "m_id (base_reply (lib E) req) = m_id req"
    using base_reply_simps [OF assms(2)] by simp_all
  then show ?thesis
    using fit assms(5,6) h
    by (simp add: serve_dns_miss [OF assms(1,3) h] serve_miss_def Let_def local_reply_def)
qed

section \<open>The size of replies\<close>

text \<open>A message that was made to fit, up to the order of its answers (round robin comes after).\<close>

definition fitted :: "dns_lib \<Rightarrow> int \<Rightarrow> msg \<Rightarrow> bool" where
  "fitted L limit m \<longleftrightarrow>
     (\<exists>m0. (msg_len L m0 < limit \<or> length (m_answer m0) \<le> 1) \<and>
           mset (m_answer m) = mset (m_answer m0) \<and> m = m0\<lparr>m_answer := m_answer m\<rparr>)"

lemma fittedI: "msg_len L m < limit \<or> length (m_answer m) \<le> 1 \<Longrightarrow> fitted L limit m"
  unfolding fitted_def by (intro exI [of _ m]) simp

lemma fitted_fit: "len_law L \<Longrightarrow> fitted L sz (fst (fit L m sz tcp))"
  using fit_result_bounded [of L m sz tcp] by (auto intro: fittedI)

lemma fitted_round_robin:
  assumes "fitted L sz m"
  shows "fitted L sz (m\<lparr>m_answer := round_robin b rnd (m_answer m)\<rparr>)"
proof -
  obtain m0 where m0: "msg_len L m0 < sz \<or> length (m_answer m0) \<le> 1"
      "mset (m_answer m) = mset (m_answer m0)" "m = m0\<lparr>m_answer := m_answer m\<rparr>"
    using assms unfolding fitted_def by blast
  have "m\<lparr>m_answer := rs\<rparr> = m0\<lparr>m_answer := rs\<rparr>" for rs
    using arg_cong [OF m0(3), of "\<lambda>x. x\<lparr>m_answer := rs\<rparr>"] by simp
  with m0(1,2) show ?thesis
    unfolding fitted_def by (intro exI [of _ m0]) (simp add: round_robin_mset)
qed

lemma server_failure_fitted:
  "reply_law L \<Longrightarrow> rcode_law L \<Longrightarrow> fitted L sz (server_failure L new_msg req)"
  using set_rcode_simps(3) [of L new_msg] by (intro fittedI) (simp add: server_failure_def new_msg_def)

lemma cached_reply_fitted:
  assumes "reply_law (lib E)" "rcode_law (lib E)" "len_law (lib E)"
  shows "\<exists>m. written (cached_reply E tcp bufsize req q m1 s) = written s @ [m] \<and>
    fitted (lib E) (if tcp then max_msg_size else uint bufsize) m"
  using fitted_fit [OF assms(3)] server_failure_fitted [OF assms(1,2)]
  by (auto simp: cached_reply_def Let_def case_prod_beta intro: fitted_round_robin)

lemma local_reply_fitted:
  assumes "reply_law (lib E)" "rcode_law (lib E)" "len_law (lib E)"
    and "m_rcode m = rcode_server_failure \<Longrightarrow> m_answer m = []"
  shows "\<exists>m'. written (local_reply E tcp bufsize d req q m s) = written s @ [m'] \<and>
    fitted (lib E) (if tcp then max_msg_size else uint bufsize) m'"
  using fitted_fit [OF assms(3)] server_failure_fitted [OF assms(1,2)] assms(4)
  by (auto simp: local_reply_def Let_def case_prod_beta intro!: fittedI [of _ m])

lemma chaos_failure_empty:
  assumes "reply_law (lib E)" "rcode_law (lib E)" "m_answer m = []" "m_rcode m = rcode_success"
    and "m_rcode (chaos_answer E req q n m) = rcode_server_failure"
  shows "m_answer (chaos_answer E req q n m) = []"
  using assms(3-5) set_rcode_simps(3) [OF assms(1,2)] set_reply_simps [OF assms(1)]
  by (auto simp: chaos_answer_def Let_def split: if_splits)

text \<open>
  C34. The size of replies: a request that is answered without an upstream server, from the cache,
  from the hosts file or with an answer of class CHAOS, gets exactly one reply, and that reply was
  made to fit what the client can receive (the buffer size it announces, or the largest message
  over TCP): it is shorter, or has at most one answer left, up to the order of its answers.
\<close>

theorem own_replies_fit:
  assumes "reply_law (lib E)" "rcode_law (lib E)" "len_law (lib E)"
    and "m_question req = [q]" "client_limits (lib E) a req = (bufsize, d)"
    and "hit (clock E 0) q d (is_tcp a) (m_id (base_reply (lib E) req)) (stale_enabled E) False (rcache s)
           = Inr (r, c)"
    and "r \<noteq> None \<or> hosts_records E q (to_lower (q_name q)) \<noteq> [] \<or>
           \<not> reverse_zone q (to_lower (q_name q)) \<and> q_class q = class_CHAOS"
  shows "\<exists>s' m. serve_dns E a req s = Inr s' \<and> written s' = written s @ [m] \<and> sent s' = sent s \<and>
    fitted (lib E) (if is_tcp a then max_msg_size else uint bufsize) m"
proof (cases r)
  case (Some m1)
  with assms(6) have h: "hit (clock E 0) q d (is_tcp a) (m_id (base_reply (lib E) req)) (stale_enabled E)
      False (rcache s) = Inr (Some m1, c)" by simp
  have "sent (cached_reply E t b req q m1 s1) = sent s1" for t b s1
    by (simp add: cached_reply_def Let_def case_prod_beta)
  then show ?thesis
    using cached_reply_fitted [OF assms(1-3), of "is_tcp a" bufsize req q m1 "(counted_request d s)\<lparr>rcache := c\<rparr>"]
    by (auto simp: serve_dns_fresh [OF assms(4,5) h])
next
  case None
  with assms(6) have h: "hit (clock E 0) q d (is_tcp a) (m_id (base_reply (lib E) req)) (stale_enabled E)
      False (rcache s) = Inr (None, c)" by simp
  let ?s = "inc_stat CacheMiss ((counted_request d s)\<lparr>rcache := c\<rparr>)"
  let ?m = "base_reply (lib E) req" and ?n = "to_lower (q_name q)"
  note base = base_reply_simps [OF assms(1), of req]
  obtain m where m: "m_rcode m = rcode_server_failure \<Longrightarrow> m_answer m = []"
      "serve_dns E a req s = Inr (local_reply E (is_tcp a) bufsize d req q m ?s)"
  proof (cases "hosts_records E q ?n = []")
    case True
    show thesis
      by (rule that [of "chaos_answer E req q ?n ?m"])
        (use True None assms(7) chaos_failure_empty [OF assms(1,2)] base in
          \<open>auto simp: serve_dns_miss [OF assms(4,5) h] serve_miss_def Let_def\<close>)
  next
    case False
    show thesis
      by (rule that [of "?m\<lparr>m_answer := m_answer ?m @ hosts_records E q ?n\<rparr>"])
        (use False base in \<open>auto simp: serve_dns_miss [OF assms(4,5) h] serve_miss_def Let_def\<close>)
  qed
  have "sent (local_reply E t b d req q m s1) = sent s1" for t b s1
    by (simp add: local_reply_def Let_def case_prod_beta)
  with local_reply_fitted [OF assms(1-3) m(1), of "is_tcp a" bufsize d req q ?s] m(2) show ?thesis by auto
qed

section \<open>Stale answers\<close>

text \<open>
  C8. Surviving an outage: when all upstream servers fail and the cache holds an answer for the
  question that has expired but is within its stale period, the client gets that answer, with the
  request's identifier; the entry stays as it is, except for its counter of stale hits, and is not
  renewed. This is for a request that goes to the forwarder and may be sent on: stale answers are
  enabled, the hosts file has no record, the name is outside the reverse zones and the class is not
  CHAOS, the request is not refused and its search does not end without asking a server.
\<close>

theorem stale_answer_on_outage:
  assumes "m_question req = [q]" "reply_law (lib E)" "client_limits (lib E) a req = (bufsize, d)"
    and "always_fails E" "stub_law E" "\<not> refuses E (count_label (lib E) (q_name q) - 1)"
    and "\<not> search_skipped E (q_name q)"
    and "hosts_records E q (to_lower (q_name q)) = []" "\<not> reverse_zone q (to_lower (q_name q))"
    and "q_class q \<noteq> class_CHAOS" "stale_enabled E"
    and "0 < capacity (rcache s)" "fmlookup (entries (rcache s)) (cache_key q d (is_tcp a)) = Some e"
    and "expiration e \<le> clock E 0 0" "expiration e \<le> clock E 1 0" "clock E 1 1 \<le> stale_expiration e"
  shows "\<exists>s'. serve_dns E a req s = Inr s' \<and>
    written s' = written s @ [hit_reply (m_id req) (e_msg e)] \<and>
    rcache s' = (rcache s)\<lparr>entries := fmupd (cache_key q d (is_tcp a))
                  (e\<lparr>stale_hits := stale_hits e + 1\<rparr>) (entries (rcache s))\<rparr> \<and>
    stats s' StaleCacheHit = stats s StaleCacheHit + 1"
proof -
  let ?c = "(rcache s)\<lparr>entries := fmupd (cache_key q d (is_tcp a))
              (e\<lparr>stale_hits := stale_hits e + 1\<rparr>) (entries (rcache s))\<rparr>"
  let ?s2 = "inc_stat CacheMiss ((counted_request d s)\<lparr>rcache := rcache s\<rparr>)"
  let ?r = "hit_reply (m_id req) (e_msg e)"
  have id: "m_id (base_reply (lib E) req) = m_id req" by (rule base_reply_simps [OF assms(2)])
  have h0: "hit (clock E 0) q d (is_tcp a) (m_id (base_reply (lib E) req)) (stale_enabled E) False
      (rcache s) = Inr (None, rcache s)"
    using assms(11-14) by (simp add: hit_present)
  have h1: "hit (clock E 1) q d (is_tcp a) (m_id req) (stale_enabled E) True (rcache s)
      = Inr (Some ?r, ?c)"
    using assms(12,13,15,16) by (simp add: hit_present counted_def)
  obtain s1 where s1: "upstream_only (inc_stat ForwardCount (?s2\<lparr>rcache := ?c\<rparr>)) s1"
      "serve_dns_forward E (is_tcp a) req (Some ?r) (?s2\<lparr>rcache := ?c\<rparr>)
         = Inr ((?r, True), write_msg ?r (inc_stat StaleCacheHit s1))"
    using forward_all_fail [OF assms(4,5,1,6,7), of "?s2\<lparr>rcache := ?c\<rparr>" "is_tcp a" "Some ?r"]
    by (auto simp: negative_reply_def)
  then have "serve_dns E a req s = Inr (write_msg ?r (inc_stat StaleCacheHit s1))"
    using assms(8-10) h1
    by (simp add: serve_dns_miss [OF assms(1,3) h0] serve_miss_def forward_and_store_def Let_def id)
  moreover have "stats (counted_request d s) StaleCacheHit = stats s StaleCacheHit"
    by (simp add: counted_request_def Let_def)
  ultimately show ?thesis using s1(1) by (simp add: upstream_only_def)
qed

theorem stale_answer_on_outage_witness:
  "\<exists>s'. serve_dns (late_env sample_config) UDPAddr sample_req sample_server = Inr s' \<and>
    written s' = written sample_server @ [hit_reply (m_id sample_req) (e_msg (sample_elem 9 20))] \<and>
    rcache s' = (rcache sample_server)\<lparr>entries := fmupd (cache_key sample_q False (is_tcp UDPAddr))
      ((sample_elem 9 20)\<lparr>stale_hits := stale_hits (sample_elem 9 20) + 1\<rparr>) (entries (rcache sample_server))\<rparr> \<and>
    stats s' StaleCacheHit = stats sample_server StaleCacheHit + 1"
  by (rule stale_answer_on_outage)
    (simp_all add: refuses_def search_skipped_def hosts_records_def address_records_def reverse_zone_def stale_enabled_def
      has_suffix_drop)

text \<open>
  In the reverse zones there are no stale answers: the forwarder is called without one, and in the
  same situation the client gets SERVFAIL.
\<close>

lemma reverse_zone_has_no_stale_answer:
  assumes "m_question req = [q]" "reply_law (lib E)" "client_limits (lib E) a req = (bufsize, d)"
    and "always_fails E" "stub_law E" "\<not> refuses E (count_label (lib E) (q_name q) - 1)"
    and "\<not> search_skipped E (q_name q)"
    and "hosts_records E q (to_lower (q_name q)) = []" "reverse_zone q (to_lower (q_name q))"
    and "find_reverse E (to_lower (q_name q)) = Inr []" "stale_enabled E"
    and "0 < capacity (rcache s)" "fmlookup (entries (rcache s)) (cache_key q d (is_tcp a)) = Some e"
    and "expiration e \<le> clock E 0 0"
  shows "\<exists>s'. serve_dns E a req s = Inr s' \<and>
    written s' = written s @ [set_rcode (lib E) new_msg req rcode_server_failure]"
proof -
  let ?s2 = "inc_stat CacheMiss ((counted_request d s)\<lparr>rcache := rcache s\<rparr>)"
  have h0: "hit (clock E 0) q d (is_tcp a) (m_id (base_reply (lib E) req)) (stale_enabled E) False
      (rcache s) = Inr (None, rcache s)"
    using assms(11-14) by (simp add: hit_present)
  obtain s1 where s1: "upstream_only (inc_stat ForwardCount ?s2) s1"
      "serve_dns_forward E (is_tcp a) req None ?s2
         = Inr (negative_reply (set_rcode (lib E) new_msg req rcode_server_failure) None s1)"
    using forward_all_fail [OF assms(4,5,1,6,7), of ?s2 "is_tcp a" None] by blast
  then have "serve_dns_reverse E (is_tcp a) req ?s2
      = Inr (negative_reply (set_rcode (lib E) new_msg req rcode_server_failure) None s1)"
    using assms(1,10) by (simp add: serve_dns_reverse_def ptr_records_def Let_def)
  then show ?thesis
    using assms(8,9) s1(1)
    by (simp add: serve_dns_miss [OF assms(1,3) h0] serve_miss_def Let_def negative_reply_def upstream_only_def)
qed

section \<open>Negative answers\<close>

lemma insert_answer_stored:
  assumes "env_ok E" "stored_msg (rcache (insert_answer E i key m s)) k = Some x"
  shows "stored_msg (rcache s) k = Some x \<or> m = x"
  using insert_stored [of "visit E i" "clock E i" key m "rcache s" k x] assms
  by (auto simp: env_ok_def)

lemma local_reply_stored:
  assumes "env_ok E" "stored_msg (rcache (local_reply E tcp bufsize d req q m s)) k = Some x"
  shows "stored_msg (rcache s) k = Some x \<or> m_rcode m \<noteq> rcode_server_failure \<and> m_rcode x = m_rcode m"
  using assms(2) insert_answer_stored [OF assms(1)]
  by (fastforce simp: local_reply_def Let_def case_prod_beta split: if_splits)

lemma chaos_rcode:
  assumes "reply_law (lib E)" "rcode_law (lib E)" "m_rcode m = rcode_success"
  shows "m_rcode (chaos_answer E req q name m) = rcode_success
    \<or> m_rcode (chaos_answer E req q name m) = rcode_server_failure"
  using set_rcode_simps(2) [OF assms(1,2)] assms(3) by (simp add: chaos_answer_def Let_def)

lemma serve_miss_non_negative:
  assumes "cfg_rcache_non_negative (conf E)" "env_ok E" "m_question req = [q]"
    and "\<not> reverse_zone q (to_lower (q_name q))"
    and "serve_miss E tcp bufsize d req q s = Inr s'" "stored_msg (rcache s') k = Some m"
  shows "stored_msg (rcache s) k = Some m \<or> m_rcode m = rcode_success"
proof -
  have L: "env_laws E" using assms(2) by (simp add: env_ok_def)
  note laws = env_lawsD [OF L]
  have base: "m_rcode (base_reply (lib E) req) = rcode_success"
    by (rule base_reply_simps [OF laws(1)])
  from assms(5) show ?thesis
  proof (cases rule: serve_miss_cases)
    case hosts
    with local_reply_stored [OF assms(2)] assms(6) base show ?thesis by fastforce
  next
    case (reverse resp st s2)
    with assms(4) show ?thesis by simp
  next
    case chaos
    with local_reply_stored [OF assms(2)] assms(6) chaos_rcode [OF laws(1,2) base] show ?thesis
      by metis
  next
    case (forward m_stale c resp st s2)
    have "rcache s2 = c"
      using returnsD [OF serve_dns_forward_ok [OF L assms(3)], of tcp m_stale "s\<lparr>rcache := c\<rparr>"] forward(3)
      by auto
    then have "stored_msg (rcache s2) k = Some m \<Longrightarrow> stored_msg (rcache s) k = Some m"
      using hit_stored [OF forward(2)] by simp
    with forward(4) assms(1,6) insert_answer_stored [OF assms(2), of 2 "cache_key q d tcp" resp s2 k m]
    show ?thesis
      by (cases "m_rcode resp = rcode_success \<and> \<not> st") auto
  qed
qed

text \<open>
  C18. With \<open>rcache-non-negative\<close>, serving a request outside the reverse zones puts no negative
  answer into the cache: a message stored after it was stored before it or reports success.
\<close>

theorem non_negative_cache:
  assumes "cfg_rcache_non_negative (conf E)" "env_ok E" "m_question req = [q]"
    and "\<not> reverse_zone q (to_lower (q_name q))"
    and "serve_dns E a req s = Inr s'" "stored_msg (rcache s') k = Some m"
  shows "stored_msg (rcache s) k = Some m \<or> m_rcode m = rcode_success"
  using assms(3)
proof (cases rule: serve_dns_cases [of req q E a s])
  case (fresh bufsize d m1 c)
  with assms(5) have "rcache s' = c" by (auto simp: cached_reply_def Let_def case_prod_beta)
  with hit_stored [OF fresh(2)] assms(6) show ?thesis by simp
next
  case (miss bufsize d c)
  with assms(5) have "serve_miss E (is_tcp a) bufsize d req q
      (inc_stat CacheMiss ((counted_request d s)\<lparr>rcache := c\<rparr>)) = Inr s'" by simp
  from serve_miss_non_negative [OF assms(1-4) this assms(6)] hit_stored [OF miss(2)]
  show ?thesis by auto
qed

theorem non_negative_cache_witness:
  "\<exists>s'. serve_dns (sample_env (sample_config\<lparr>cfg_rcache_non_negative := True\<rparr>) (answering 3)) UDPAddr
       sample_req sample_server = Inr s' \<and>
     (\<nexists>m. stored_msg (rcache s') (cache_key sample_q False False) = Some m \<and> m_rcode m \<noteq> rcode_success
          \<and> stored_msg (rcache sample_server) (cache_key sample_q False False) \<noteq> Some m)"
proof -
  let ?E = "sample_env (sample_config\<lparr>cfg_rcache_non_negative := True\<rparr>) (answering 3)"
  have E: "env_ok ?E" by simp
  have "cache_echo (rcache sample_server)"
    unfolding cache_echo_def
  proof (intro allI impI)
    fix k m assume "stored_msg (rcache sample_server) k = Some m"
    then have "k = cache_key sample_q False False" "m = sample_m"
      by (auto simp: stored_msg_def sample_cache_def new_cache_def split: if_splits)
    moreover have "question_ok sample_q" "name_types sample_m = [(q_name sample_q, q_type sample_q)]"
      by (simp_all add: question_ok_def type_in_use_def name_types_def sample_m_def)
    ultimately show "\<exists>q d t. question_ok q \<and> k = cache_key q d t \<and> name_types m = [(q_name q, q_type q)]"
      by blast
  qed
  from returnsD [OF serve_dns_ok [OF E sample_request_ok this], of UDPAddr] obtain s'
    where s': "serve_dns ?E UDPAddr sample_req sample_server = Inr s'" by auto
  have "\<not> reverse_zone sample_q (to_lower (q_name sample_q))"
    by (simp add: reverse_zone_def has_suffix_drop)
  from non_negative_cache [OF _ E _ this s', of "cache_key sample_q False False"] s' show ?thesis by auto
qed

text \<open>
  The reverse zones ignore \<open>rcache-non-negative\<close>: a negative answer to a reverse lookup is
  stored under its key even with the option set.
\<close>

lemma reverse_lookup_caches_negative:
  assumes "cfg_rcache_non_negative (conf E)" "m_question req = [q]"
    and "client_limits (lib E) a req = (bufsize, d)"
    and "reverse_zone q (to_lower (q_name q))" "hosts_records E q (to_lower (q_name q)) = []"
    and "fmlookup (entries (rcache s)) (cache_key q d (is_tcp a)) = None"
    and "int (fmsize (entries (rcache s))) + 1 < capacity (rcache s)"
    and "serve_dns_reverse E (is_tcp a) req (inc_stat CacheMiss (counted_request d s))
           = Inr ((resp, False), s2)"
    and "rcache s2 = rcache s" "m_rcode resp \<noteq> rcode_success"
  shows "\<exists>s'. serve_dns E a req s = Inr s' \<and>
    stored_msg (rcache s') (cache_key q d (is_tcp a)) = Some resp"
proof -
  have h: "hit (clock E 0) q d (is_tcp a) (m_id (base_reply (lib E) req)) (stale_enabled E) False
      (rcache s) = Inr (None, rcache s)"
    using assms(6) by (intro hit_absent) simp
  have same: "(counted_request d s)\<lparr>rcache := rcache s\<rparr> = counted_request d s"
    by (simp add: counted_request_def Let_def inc_stat_def)
  have "serve_dns E a req s = Inr (insert_answer E 1 (cache_key q d (is_tcp a)) resp s2)"
    using assms(4,5,8)
    by (simp only: serve_dns_miss [OF assms(2,3) h] same serve_miss_def Let_def bind_go.simps
        prod.case simp_thms if_True if_False not_False_eq_True)
  then show ?thesis
    using insert_new_room [OF assms(6,7)] assms(9) by (simp add: stored_msg_def)
qed

definition ptr_q :: question where
  "ptr_q = \<lparr>q_name = ''1.ip6.arpa.'', q_type = type_PTR, q_class = class_INET\<rparr>"

definition ptr_req :: msg where
  "ptr_req = new_msg\<lparr>m_id := 8, m_question := [ptr_q]\<rparr>"

definition ptr_env :: env where
  "ptr_env = sample_env (sample_config\<lparr>cfg_rcache_non_negative := True\<rparr>) (answering 3)"

section \<open>The class of a question\<close>

definition version_reply :: "env \<Rightarrow> msg \<Rightarrow> question \<Rightarrow> msg" where
  "version_reply E req q =
     (base_reply (lib E) req)\<lparr>m_authoritative := True, m_answer := [txt_record q (version E)]\<rparr>"

lemma version_name_not_reverse:
  "name = ''version.bind.'' \<Longrightarrow> \<not> has_suffix name ''.ip6.arpa.''"
  by (simp add: has_suffix_drop)

lemma serve_version:
  assumes "m_question req = [q]" "q_class q = class_CHAOS" "q_type q = type_TXT"
    and "to_lower (q_name q) = ''version.bind.''"
    and "reply_law (lib E)" "client_limits (lib E) a req = (bufsize, d)"
    and "fmlookup (entries (rcache s)) (cache_key q d (is_tcp a)) = None"
    and "msg_len (lib E) (version_reply E req q) < (if is_tcp a then max_msg_size else uint bufsize)"
  shows "\<exists>s'. serve_dns E a req s = Inr s' \<and> written s' = written s @ [version_reply E req q] \<and>
    rcache s' = insert_message (clock E 1) (visit E 1) (cache_key q d (is_tcp a)) (version_reply E req q)
                  (rcache s)"
proof -
  have h: "hit (clock E 0) q d (is_tcp a) (m_id (base_reply (lib E) req)) (stale_enabled E) False
      (rcache s) = Inr (None, rcache s)"
    using assms(7) by (intro hit_absent) simp
  have rc: "m_rcode (base_reply (lib E) req) = rcode_success"
    by (rule base_reply_simps [OF assms(5)])
  have fit: "fit (lib E) (version_reply E req q) (if is_tcp a then max_msg_size else uint bufsize) (is_tcp a)
      = (version_reply E req q, False)"
    using assms(8) by (simp add: fit_def Let_def)
  have no: "hosts_records E q (to_lower (q_name q)) = []" "\<not> reverse_zone q (to_lower (q_name q))"
    using assms(3,4) version_name_not_reverse by (simp_all add: hosts_records_def reverse_zone_def)
  have ans: "chaos_answer E req q (to_lower (q_name q)) (base_reply (lib E) req) = version_reply E req q"
    using assms(3,4) by (simp add: chaos_answer_def version_reply_def Let_def)
  have "m_rcode (version_reply E req q) = rcode_success" using rc by (simp add: version_reply_def)
  with fit no ans assms(2) show ?thesis
    by (simp add: serve_dns_miss [OF assms(1,6) h] serve_miss_def Let_def local_reply_def)
qed

text \<open>
  C19. The cache confuses classes, because the key has no class: after the answer to a CHAOS
  question for \<open>version.bind.\<close> has been cached, a TXT question of any other class for the same name
  is answered with the version of the server, as long as the entry lives.
\<close>

theorem chaos_answer_for_other_class:
  assumes "m_question req = [q]" "q_class q = class_CHAOS" "q_type q = type_TXT"
    and "to_lower (q_name q) = ''version.bind.''" "m_question req' = [q\<lparr>q_class := cl\<rparr>]"
    and "reply_law (lib E)" "client_limits (lib E) a req = (bufsize, d)"
    and "client_limits (lib E') a req' = (bufsize', d)" "reply_law (lib E')"
    and "fmlookup (entries (rcache s)) (cache_key q d (is_tcp a)) = None"
    and "int (fmsize (entries (rcache s))) + 1 < capacity (rcache s)"
    and "msg_len (lib E) (version_reply E req q) < (if is_tcp a then max_msg_size else uint bufsize)"
    and "msg_len (lib E') (hit_reply (m_id req') (version_reply E req q))
           < (if is_tcp a then max_msg_size else uint bufsize')"
    and "clock E' 0 0 < expiration (new_elem (clock E 1) (version_reply E req q) (rcache s))"
  shows "\<exists>s' m. serve_all [(E, a, req), (E', a, req')] s = Inr s' \<and>
    written s' = written s @ [version_reply E req q, m] \<and> m_answer m = [txt_record q (version E)]"
proof -
  let ?m = "version_reply E req q" and ?q' = "q\<lparr>q_class := cl\<rparr>"
  let ?r = "hit_reply (m_id req') ?m"
  obtain s1 where s1: "serve_dns E a req s = Inr s1" "written s1 = written s @ [?m]"
      "rcache s1 = insert_message (clock E 1) (visit E 1) (cache_key q d (is_tcp a)) ?m (rcache s)"
    using serve_version [OF assms(1-4,6,7,10,12)] by blast
  have key: "cache_key ?q' d (is_tcp a) = cache_key q d (is_tcp a)" by (simp add: cache_key_def)
  have id: "m_id (base_reply (lib E') req') = m_id req'" by (rule base_reply_simps [OF assms(9)])
  have "fmlookup (entries (rcache s1)) (cache_key ?q' d (is_tcp a)) = Some (new_elem (clock E 1) ?m (rcache s))"
    "0 < capacity (rcache s1)"
    using assms(11) by (simp_all add: key s1(3) insert_new_room [OF assms(10,11)])
  from hit_present [OF this(2,1), of "clock E' 0" "m_id req'" "stale_enabled E'" False] assms(14) obtain c
    where h: "hit (clock E' 0) ?q' d (is_tcp a) (m_id (base_reply (lib E') req')) (stale_enabled E') False
      (rcache s1) = Inr (Some ?r, c)"
    by (simp add: id)
  have fit: "fit (lib E') ?r (if is_tcp a then max_msg_size else uint bufsize') (is_tcp a) = (?r, False)"
    using assms(13) by (simp add: fit_def Let_def)
  have "m_answer ?r = [txt_record q (version E)]" by (simp add: hit_reply_def version_reply_def)
  then show ?thesis
    using s1 fit assms(3)
    by (simp add: serve_dns_fresh [OF assms(5,8) h] cached_reply_def Let_def)
qed

definition chaos_q :: question where
  "chaos_q = \<lparr>q_name = ''version.bind.'', q_type = type_TXT, q_class = class_CHAOS\<rparr>"

definition chaos_req :: "16 word \<Rightarrow> msg" where
  "chaos_req cl = new_msg\<lparr>m_id := 9, m_question := [chaos_q\<lparr>q_class := cl\<rparr>]\<rparr>"

theorem chaos_answer_for_other_class_witness:
  "\<exists>s' m. serve_all [(sample_env sample_config silent, UDPAddr, chaos_req 3),
                     (sample_env sample_config silent, UDPAddr, chaos_req 1)] (new_server sample_config)
      = Inr s' \<and>
    written s' = written (new_server sample_config)
      @ [version_reply (sample_env sample_config silent) (chaos_req 3) chaos_q, m] \<and>
    m_answer m = [txt_record chaos_q (version (sample_env sample_config silent))]"
  by (rule chaos_answer_for_other_class [where cl = 1 and bufsize = 512 and bufsize' = 512 and d = False])
    (simp_all add: chaos_req_def chaos_q_def to_lower_def new_server_def sample_config_def
      version_reply_def sample_msg_len hit_reply_def new_msg_def
      seconds_def signed_take_bit_int_eq_self)

theorem own_replies_fit_witness:
  "\<exists>s' m. serve_dns (sample_env sample_config silent) UDPAddr (chaos_req 3) (new_server sample_config) = Inr s' \<and>
    written s' = written (new_server sample_config) @ [m] \<and> sent s' = sent (new_server sample_config) \<and>
    fitted (lib (sample_env sample_config silent)) (if is_tcp UDPAddr then max_msg_size else uint (512 :: 16 word)) m"
proof (rule own_replies_fit [where q = chaos_q and r = None and d = False])
  show "hit (clock (sample_env sample_config silent) 0) chaos_q False (is_tcp UDPAddr)
      (m_id (base_reply (lib (sample_env sample_config silent)) (chaos_req 3)))
      (stale_enabled (sample_env sample_config silent)) False (rcache (new_server sample_config))
      = Inr (None, rcache (new_server sample_config))"
    by (intro hit_absent) (simp add: new_server_def)
qed (simp_all add: chaos_req_def chaos_q_def to_lower_def version_name_not_reverse reverse_zone_def new_msg_def)

end
