(* ===== verification/Server_Concurrent.thy ===== *)
theory Server_Concurrent
  imports Server_Correct Cache_Concurrent
begin

text \<open>
  The server under concurrent requests. The DNS library serves every request in a goroutine of its
  own, and the polling of the hosts file runs in another one. What they share is the cache, the
  counters, and the list of hosts; a step below is one access to it (a critical section of the
  cache, a lookup in the hosts file), together with the work of its goroutine that touches nothing
  shared but the counters. A path of steps is an interleaving.
\<close>

section \<open>One request, section by section\<close>

text \<open>
  Where a request stands: not started, inside the first lookup (for a fresh answer), having missed,
  about to store and send an answer of its own (from the hosts file, or of class CHAOS), inside the
  second lookup (for a stale answer), about to store the answer that it has sent, or answered and
  done. The number is that of the cache operation that stores the answer.
\<close>

datatype phase =
    Arrived
  | Fresh pc
  | Missed
  | Answering msg
  | Stale pc
  | Storing nat msg
  | Finished

definition lookup_step ::
  "env \<Rightarrow> nat \<Rightarrow> remote_addr \<Rightarrow> msg \<Rightarrow> question \<Rightarrow> bool \<Rightarrow> pc \<Rightarrow> server \<Rightarrow> (pc \<times> server) go"
where
  "lookup_step E i a req q return_stale p s =
     bind_go (hit_step (clock E i) q (snd (client_limits (lib E) a req)) (is_tcp a)
                (m_id (base_reply (lib E) req)) (stale_enabled E) return_stale p (rcache s))
       (\<lambda>(p, c). Inr (p, s\<lparr>rcache := c\<rparr>))"

text \<open>What follows a miss: the hosts file, the reverse zones, the class CHAOS, or the second lookup.\<close>

definition missed_step :: "env \<Rightarrow> remote_addr \<Rightarrow> msg \<Rightarrow> question \<Rightarrow> server \<Rightarrow> (phase \<times> server) go" where
  "missed_step E a req q s =
     (let name = to_lower (q_name q); m = base_reply (lib E) req;
          records = hosts_records E q name
      in if length records > 0
         then Inr (Answering (m\<lparr>m_answer := m_answer m @ records\<rparr>), s)
         else if reverse_zone q name then
           bind_go (serve_dns_reverse E (is_tcp a) req s) (\<lambda>((resp, stale_res), s).
             Inr (if \<not> stale_res then Storing 1 resp else Finished, s))
         else if q_class q = class_CHAOS
         then Inr (Answering (chaos_answer E req q name m), s)
         else Inr (Stale Idle, s))"

definition forward_step ::
  "env \<Rightarrow> remote_addr \<Rightarrow> msg \<Rightarrow> msg option \<Rightarrow> server \<Rightarrow> (phase \<times> server) go"
where
  "forward_step E a req m_stale s =
     bind_go (serve_dns_forward E (is_tcp a) req m_stale s) (\<lambda>((resp, stale_res), s).
       Inr (if \<not> (cfg_rcache_non_negative (conf E) \<and> m_rcode resp \<noteq> rcode_success) \<and> \<not> stale_res
            then Storing 2 resp else Finished, s))"

definition serve_step :: "env \<Rightarrow> remote_addr \<Rightarrow> msg \<Rightarrow> phase \<Rightarrow> server \<Rightarrow> (phase \<times> server) go" where
  "serve_step E a req p s =
     (case m_question req of
        [] \<Rightarrow> Inl IndexRange
      | q # _ \<Rightarrow>
          (let (bufsize, dnssec) = client_limits (lib E) a req; tcp = is_tcp a in
           case p of
             Arrived \<Rightarrow> Inr (Fresh Idle, counted_request dnssec s)
           | Fresh (Done (Some m1)) \<Rightarrow> Inr (Finished, cached_reply E tcp bufsize req q m1 s)
           | Fresh (Done None) \<Rightarrow> Inr (Missed, inc_stat CacheMiss s)
           | Fresh h \<Rightarrow> bind_go (lookup_step E 0 a req q False h s) (\<lambda>(h, s). Inr (Fresh h, s))
           | Missed \<Rightarrow> missed_step E a req q s
           | Answering m \<Rightarrow> Inr (Finished, local_reply E tcp bufsize dnssec req q m s)
           | Stale (Done m_stale) \<Rightarrow> forward_step E a req m_stale s
           | Stale h \<Rightarrow> bind_go (lookup_step E 1 a req q True h s) (\<lambda>(h, s). Inr (Stale h, s))
           | Storing i m \<Rightarrow> Inr (Finished, insert_answer E i (cache_key q dnssec tcp) m s)
           | Finished \<Rightarrow> Inr (Finished, s)))"

text \<open>\<open>n\<close> sections of one request with nothing in between.\<close>

fun run_alone :: "env \<Rightarrow> remote_addr \<Rightarrow> msg \<Rightarrow> nat \<Rightarrow> phase \<Rightarrow> server \<Rightarrow> (phase \<times> server) go" where
  "run_alone E a req 0 p s = Inr (p, s)"
| "run_alone E a req (Suc n) p s =
     bind_go (serve_step E a req p s) (\<lambda>(p, s). run_alone E a req n p s)"

section \<open>The number of sections\<close>

fun phase_rank :: "phase \<Rightarrow> nat" where
  "phase_rank Arrived = 11"
| "phase_rank (Fresh h) = hit_rank h + 7"
| "phase_rank Missed = 6"
| "phase_rank (Answering m) = 1"
| "phase_rank (Stale h) = hit_rank h + 2"
| "phase_rank (Storing i m) = 1"
| "phase_rank Finished = 0"

lemma hit_rank_0: "hit_rank p = 0 \<longleftrightarrow> (\<exists>r. p = Done r)"
  by (cases p) auto

lemma serve_step_lookups:
  assumes "m_question req = [q]" "hit_rank h \<noteq> 0"
  shows "serve_step E a req (Fresh h) s
      = bind_go (lookup_step E 0 a req q False h s) (\<lambda>(h, s). Inr (Fresh h, s))"
    and "serve_step E a req (Stale h) s
      = bind_go (lookup_step E 1 a req q True h s) (\<lambda>(h, s). Inr (Stale h, s))"
  using assms by (cases h; simp add: serve_step_def case_prod_beta)+

lemma serve_step_simps:
  assumes "m_question req = [q]" "client_limits (lib E) a req = (bufsize, d)"
  shows "serve_step E a req Arrived s = Inr (Fresh Idle, counted_request d s)"
    and "serve_step E a req (Fresh (Done (Some m1))) s
      = Inr (Finished, cached_reply E (is_tcp a) bufsize req q m1 s)"
    and "serve_step E a req (Fresh (Done None)) s = Inr (Missed, inc_stat CacheMiss s)"
    and "serve_step E a req Missed s = missed_step E a req q s"
    and "serve_step E a req (Stale (Done r)) s = forward_step E a req r s"
    and "serve_step E a req (Storing i m) s
      = Inr (Finished, insert_answer E i (cache_key q d (is_tcp a)) m s)"
    and "serve_step E a req Finished s = Inr (Finished, s)"
    and "serve_step E a req (Answering m) s
      = Inr (Finished, local_reply E (is_tcp a) bufsize d req q m s)"
  using assms by (simp_all add: serve_step_def)

text \<open>The stages by what the next section does.\<close>

lemma phase_cases:
  obtains (arrived) "p = Arrived"
    | (looking) W h where "p = W h" "W = Fresh \<or> W = Stale" "hit_rank h \<noteq> 0"
    | (fresh) r where "p = Fresh (Done r)"
    | (missed) "p = Missed"
    | (answering) m where "p = Answering m"
    | (stale) r where "p = Stale (Done r)"
    | (storing) i m where "p = Storing i m"
    | (finished) "p = Finished"
proof (cases p)
  case (Fresh h)
  then show thesis using fresh looking [of Fresh h] by (cases h) auto
next
  case (Stale h)
  then show thesis using stale looking [of Stale h] by (cases h) auto
qed (auto intro: arrived missed answering storing finished)

lemma serve_step_looking:
  assumes "m_question req = [q]" "W = Fresh \<or> W = Stale" "hit_rank h \<noteq> 0"
  shows "\<exists>i rs. serve_step E a req (W h) s
    = bind_go (lookup_step E i a req q rs h s) (\<lambda>(h, s). Inr (W h, s))"
  using assms(2) serve_step_lookups [OF assms(1,3)] by blast

section \<open>A request served alone is served as by the handler\<close>

definition leads :: "env \<Rightarrow> remote_addr \<Rightarrow> msg \<Rightarrow> nat \<Rightarrow> phase \<times> server \<Rightarrow> phase \<times> server \<Rightarrow> bool" where
  "leads E a req n x y \<longleftrightarrow> (\<exists>k \<le> n. run_alone E a req k (fst x) (snd x) = Inr y)"

lemma run_alone_add:
  "run_alone E a req (n + m) p s = bind_go (run_alone E a req n p s) (\<lambda>(p, s). run_alone E a req m p s)"
  by (induction n arbitrary: p s) (simp_all add: bind_go_assoc case_prod_unfold)

lemma leads_refl [simp]: "leads E a req n x x"
  unfolding leads_def by (rule exI [of _ 0]) simp

lemma leads_step: "serve_step E a req p s = Inr y \<Longrightarrow> leads E a req 1 (p, s) y"
  unfolding leads_def by (rule exI [of _ 1]) (simp add: case_prod_beta)

lemma leads_trans:
  assumes "leads E a req n x y" "leads E a req m y z"
  shows "leads E a req (n + m) x z"
proof -
  obtain k l where "k \<le> n" "run_alone E a req k (fst x) (snd x) = Inr y"
    "l \<le> m" "run_alone E a req l (fst y) (snd y) = Inr z"
    using assms unfolding leads_def by blast
  then have "k + l \<le> n + m" "run_alone E a req (k + l) (fst x) (snd x) = Inr z"
    by (simp_all add: run_alone_add case_prod_beta)
  then show ?thesis unfolding leads_def by blast
qed

lemma leads_mono: "leads E a req n x y \<Longrightarrow> n \<le> m \<Longrightarrow> leads E a req m x y"
  unfolding leads_def using le_trans by blast

lemma hit_step_rank_le:
  "hit_step clk q d t mid ks rs p c = Inr (p', c') \<Longrightarrow> hit_rank p' \<le> hit_rank p - 1"
  using hit_step_rank [of clk q d t mid ks rs p c p' c'] by (cases "hit_rank p") (auto simp: hit_rank_0)

lemma leads_lookup:
  fixes W :: "pc \<Rightarrow> phase"
  assumes step: "\<And>h s. hit_rank h \<noteq> 0 \<Longrightarrow> serve_step E a req (W h) s
      = bind_go (lookup_step E i a req q rs h s) (\<lambda>(h, s). Inr (W h, s))"
    and "client_limits (lib E) a req = (bufsize, d)"
    and "hit (clock E i) q d (is_tcp a) (m_id (base_reply (lib E) req)) (stale_enabled E) rs (rcache s)
      = Inr (r, c)"
  shows "leads E a req 3 (W Idle, s) (W (Done r), s\<lparr>rcache := c\<rparr>)"
proof -
  let ?st = "hit_step (clock E i) q d (is_tcp a) (m_id (base_reply (lib E) req)) (stale_enabled E) rs"
  have sec: "leads E a req 1 (W h, s) (W h', s\<lparr>rcache := c'\<rparr>)" if "?st h (rcache s) = Inr (h', c')"
    for h h' s c'
  proof (cases "hit_rank h = 0")
    case True
    with that show ?thesis by (auto simp: hit_rank_0)
  next
    case False
    then show ?thesis
      using step [OF False] that assms(2) by (intro leads_step) (simp add: lookup_step_def)
  qed
  obtain p1 c1 p2 c2 p3 where p: "?st Idle (rcache s) = Inr (p1, c1)" "?st p1 c1 = Inr (p2, c2)"
      "?st p2 c2 = Inr (p3, c)" "result_of p3 = r"
    using assms(3) unfolding hit_is_three_sections by (auto simp: go_bind simp del: hit_step.simps)
  have "hit_rank p3 = 0"
    using hit_step_rank_le [OF p(1)] hit_step_rank_le [OF p(2)] hit_step_rank_le [OF p(3)] by simp
  then have "p3 = Done r" using p(4) by (auto simp: hit_rank_0)
  moreover have "leads E a req (1 + 1 + 1) (W Idle, s) (W p3, s\<lparr>rcache := c\<rparr>)"
    using leads_trans [OF leads_trans [OF sec [OF p(1)] sec] sec, of p2 c2 p3 c] p(2,3) by simp
  ultimately show ?thesis by (simp add: numeral_3_eq_3)
qed

lemma leads_missed:
  assumes q: "m_question req = [q]" "client_limits (lib E) a req = (bufsize, d)"
    and miss: "serve_miss E (is_tcp a) bufsize d req q s = Inr s'"
  shows "leads E a req 6 (Missed, s) (Finished, s')"
proof -
  note simps = serve_step_simps [OF q] missed_step_def serve_miss_def Let_def q(2)
  let ?local = "hosts_records E q (to_lower (q_name q)) \<noteq> []
    \<or> \<not> reverse_zone q (to_lower (q_name q)) \<and> q_class q = class_CHAOS"
  have loc: "leads E a req 6 (Missed, s) (Finished, s')" if ?local
  proof -
    have "\<exists>m. missed_step E a req q s = Inr (Answering m, s) \<and>
        s' = local_reply E (is_tcp a) bufsize d req q m s"
      using miss that by (cases "hosts_records E q (to_lower (q_name q)) = []") (auto simp: simps)
    then obtain m where "missed_step E a req q s = Inr (Answering m, s)"
        "s' = local_reply E (is_tcp a) bufsize d req q m s" by blast
    then have "serve_step E a req Missed s = Inr (Answering m, s)"
        "serve_step E a req (Answering m) s = Inr (Finished, s')"
      by (simp_all add: serve_step_simps [OF q])
    from leads_trans [OF leads_step [OF this(1)] leads_step [OF this(2)]] show ?thesis
      by (rule leads_mono) simp
  qed
  have store: "leads E a req 1 (if b then Storing i m else Finished, t)
      (Finished, if b then insert_answer E i (cache_key q d (is_tcp a)) m t else t)" for b i m t
    by (intro leads_step) (simp add: serve_step_simps [OF q])
  show ?thesis
  proof (cases ?local)
    case False
    then have none: "hosts_records E q (to_lower (q_name q)) = []"
      "\<not> reverse_zone q (to_lower (q_name q)) \<longrightarrow> q_class q \<noteq> class_CHAOS" by auto
    from miss show ?thesis
    proof (cases rule: serve_miss_cases)
      case (reverse resp st s2)
      with none have "leads E a req 1 (Missed, s) (if \<not> st then Storing 1 resp else Finished, s2)"
        by (intro leads_step) (simp add: simps)
      from leads_mono [OF leads_trans [OF this store], of 6] reverse(3) show ?thesis by simp
    next
      case (forward m_stale c resp st s2)
      let ?b = "\<not> (cfg_rcache_non_negative (conf E) \<and> m_rcode resp \<noteq> rcode_success) \<and> \<not> st"
      have l1: "leads E a req 1 (Missed, s) (Stale Idle, s)"
        using none forward(1) by (intro leads_step) (simp add: simps)
      have l2: "leads E a req 3 (Stale Idle, s) (Stale (Done m_stale), s\<lparr>rcache := c\<rparr>)"
        by (rule leads_lookup [OF serve_step_lookups(2) [OF q(1)] q(2) forward(2)])
      have l3: "leads E a req 1 (Stale (Done m_stale), s\<lparr>rcache := c\<rparr>)
          (if ?b then Storing 2 resp else Finished, s2)"
        using forward(3) by (intro leads_step) (simp add: serve_step_simps [OF q] forward_step_def)
      from leads_trans [OF leads_trans [OF leads_trans [OF l1 l2] l3] store] forward(4)
      show ?thesis by simp
    qed (use none in auto)
  qed (rule loc)
qed

lemma request_alone:
  assumes "m_question req = [q]" "serve_dns E a req s = Inr s'"
  shows "leads E a req 11 (Arrived, s) (Finished, s')"
  using assms(1)
proof (cases rule: serve_dns_cases [of req q E a s])
  case (fresh bufsize d m1 c)
  note q = assms(1) fresh(1)
  have l1: "leads E a req 1 (Arrived, s) (Fresh Idle, counted_request d s)"
    by (intro leads_step) (simp add: serve_step_simps [OF q])
  have l2: "leads E a req 3 (Fresh Idle, counted_request d s)
      (Fresh (Done (Some m1)), (counted_request d s)\<lparr>rcache := c\<rparr>)"
    by (rule leads_lookup [OF serve_step_lookups(1) [OF q(1)] q(2)]) (simp_all add: fresh(2))
  have l3: "leads E a req 1 (Fresh (Done (Some m1)), (counted_request d s)\<lparr>rcache := c\<rparr>) (Finished, s')"
    using fresh(3) assms(2) by (intro leads_step) (simp add: serve_step_simps [OF q])
  show ?thesis by (rule leads_mono [OF leads_trans [OF leads_trans [OF l1 l2] l3]]) simp
next
  case (miss bufsize d c)
  note q = assms(1) miss(1)
  have l1: "leads E a req 1 (Arrived, s) (Fresh Idle, counted_request d s)"
    by (intro leads_step) (simp add: serve_step_simps [OF q])
  have l2: "leads E a req 3 (Fresh Idle, counted_request d s)
      (Fresh (Done None), (counted_request d s)\<lparr>rcache := c\<rparr>)"
    by (rule leads_lookup [OF serve_step_lookups(1) [OF q(1)] q(2)]) (simp_all add: miss(2))
  have l3: "leads E a req 1 (Fresh (Done None), (counted_request d s)\<lparr>rcache := c\<rparr>)
      (Missed, inc_stat CacheMiss ((counted_request d s)\<lparr>rcache := c\<rparr>))"
    by (intro leads_step) (simp add: serve_step_simps [OF q])
  have l4: "leads E a req 6 (Missed, inc_stat CacheMiss ((counted_request d s)\<lparr>rcache := c\<rparr>)) (Finished, s')"
    by (rule leads_missed [OF q]) (use miss(3) assms(2) in simp)
  show ?thesis by (rule leads_mono [OF leads_trans [OF leads_trans [OF leads_trans [OF l1 l2] l3] l4]]) simp
qed

section \<open>What one section does\<close>

text \<open>The reply prepared by a lookup matches the request, whatever happens to the entry.\<close>

fun lookup_ok :: "msg \<Rightarrow> pc \<Rightarrow> bool" where
  "lookup_ok req (Found k r v se) = reply_matches req r"
| "lookup_ok req (Counted k r se) = reply_matches req r"
| "lookup_ok req (Done (Some r)) = reply_matches req r"
| "lookup_ok req p = True"

lemma count_hit_stored: "count_hit k v c = Inr c' \<Longrightarrow> stored_msg c' = stored_msg c"
  by (auto simp: count_hit_def stored_msg_def fun_eq_iff split: option.splits if_splits)

lemma cache_echo_remove: "cache_echo c \<Longrightarrow> cache_echo (remove k c)"
  unfolding cache_echo_def using remove_stored by blast

lemma cache_echo_stored: "stored_msg c' = stored_msg c \<Longrightarrow> cache_echo c' = cache_echo c"
  by (simp add: cache_echo_def)

lemma search_matches:
  assumes "cache_echo c" "search (cache_key q d t) c = (Some m, exp, se, True)"
    and "m_question req = [q]" "question_ok q"
  shows "reply_matches req (hit_reply (m_id req) m)"
proof -
  have "stored_msg c (cache_key q d t) = Some m"
    using assms(2) by (auto simp: search_def stored_msg_def split: if_splits option.splits)
  from cache_echoD [OF assms(1) this assms(4)] assms(3) show ?thesis
    by (simp add: reply_matches_def hit_reply_def name_types_def)
qed

lemma hit_step_matches:
  assumes "hit_step clk q d t (m_id req) ks rs p c = Inr (p', c')" "cache_echo c" "lookup_ok req p"
    and "m_question req = [q]" "question_ok q"
  shows "lookup_ok req p' \<and> cache_echo c'"
  using assms
  by (cases p) (auto simp: Let_def go_bind cache_echo_remove count_hit_stored [THEN cache_echo_stored]
      intro: search_matches split: prod.splits if_splits option.splits)

text \<open>What a request has written so far, by its stage.\<close>

fun stage_ok :: "msg \<Rightarrow> phase \<Rightarrow> msg list \<Rightarrow> bool" where
  "stage_ok req Arrived ms = (ms = [])"
| "stage_ok req (Fresh h) ms = (lookup_ok req h \<and> ms = [])"
| "stage_ok req Missed ms = (ms = [])"
| "stage_ok req (Answering m) ms = (reply_matches req m \<and> ms = [])"
| "stage_ok req (Stale h) ms = (lookup_ok req h \<and> ms = [])"
| "stage_ok req (Storing i m) ms = (reply_matches req m \<and> (\<exists>r. ms = [r] \<and> reply_matches req r))"
| "stage_ok req Finished ms = (\<exists>r. ms = [r] \<and> reply_matches req r)"

definition section_effect :: "msg \<Rightarrow> msg list \<Rightarrow> server \<Rightarrow> phase \<times> server \<Rightarrow> bool" where
  "section_effect req ms s x \<longleftrightarrow>
     cache_echo (rcache (snd x)) \<and>
     (\<exists>new. written (snd x) = written s @ new \<and> stage_ok req (fst x) (ms @ new))"

lemma forward_effect_section:
  assumes "forward_effect req st s ((resp, b), s')" "cache_echo (rcache s)"
    and "\<And>x. st = Some x \<Longrightarrow> reply_matches req x"
  shows "section_effect req [] s (if store then Storing i resp else Finished, s')"
  using assms by (auto simp: section_effect_def dest: reply_to_matches split: if_splits)

lemma local_reply_section:
  assumes "env_ok E" "m_question req = [q]" "question_ok q" "reply_matches req m" "cache_echo (rcache s)"
  shows "section_effect req [] s (Finished, local_reply E tcp bufsize d req q m s)"
proof -
  have env: "env_laws E" "orders_ok (visit E 1)" using assms(1) by (simp_all add: env_ok_def)
  have "name_types (fst (fit (lib E) m sz tcp)) = [(q_name q, q_type q)]" for sz
    using assms(2,4) by (simp add: reply_matches_def name_types_def)
  then show ?thesis
    using assms(3-5) server_failure_matches [OF env(1) assms(2)] env(2)
    by (auto simp: section_effect_def local_reply_def Let_def case_prod_beta intro: cache_echo_insert)
qed

lemma cached_reply_section:
  assumes "env_laws E" "m_question req = [q]" "reply_matches req m1" "cache_echo (rcache s)"
  shows "section_effect req [] s (Finished, cached_reply E tcp bufsize req q m1 s)"
  using assms(3,4) server_failure_matches [OF assms(1,2)]
  by (auto simp: section_effect_def cached_reply_def Let_def case_prod_beta)

lemma missed_step_effect:
  assumes "env_ok E" "m_question req = [q]" "question_ok q" "cache_echo (rcache s)"
  shows "returns (section_effect req [] s) (missed_step E a req q s)"
proof -
  have L: "env_laws E" using assms(1) by (simp add: env_ok_def)
  note laws = env_lawsD [OF L]
  have m: "reply_matches req (base_reply (lib E) req)"
    using base_reply_simps [OF laws(1)] assms(2) by (simp add: reply_matches_def name_types_def)
  have loc: "section_effect req [] s (Answering x, s)" if "reply_matches req x" for x
    using that assms(4) by (simp add: section_effect_def)
  have ch: "reply_matches req (chaos_answer E req q n (base_reply (lib E) req))" for n
    by (rule chaos_matches [OF laws(1,2) assms(2) m])
  obtain resp b s' where "serve_dns_reverse E (is_tcp a) req s = Inr ((resp, b), s')"
      "forward_effect req None s ((resp, b), s')"
    using returnsD [OF serve_dns_reverse_ok [OF L assms(2)], of "is_tcp a" s] by auto
  moreover from this have "section_effect req [] s (if store then Storing i resp else Finished, s')" for store i
    using forward_effect_section [OF _ assms(4)] by blast
  from this [of True] this [of False] have "section_effect req [] s (Storing i resp, s')"
    "section_effect req [] s (Finished, s')" for i by simp_all
  ultimately have "returns (section_effect req [] s)
      (bind_go (serve_dns_reverse E (is_tcp a) req s) (\<lambda>((resp, b), s').
         Inr (if \<not> b then Storing 1 resp else Finished, s')))" by simp
  moreover have "section_effect req [] s (Stale Idle, s)"
    using assms(4) by (simp add: section_effect_def)
  ultimately show ?thesis
    using loc [OF ch] m by (simp add: missed_step_def Let_def loc)
qed

lemma forward_step_effect:
  assumes "env_ok E" "m_question req = [q]" "cache_echo (rcache s)"
    and "\<And>x. st = Some x \<Longrightarrow> reply_matches req x"
  shows "returns (section_effect req [] s) (forward_step E a req st s)"
proof -
  have L: "env_laws E" using assms(1) by (simp add: env_ok_def)
  obtain resp b s' where "serve_dns_forward E (is_tcp a) req st s = Inr ((resp, b), s')"
      "forward_effect req st s ((resp, b), s')"
    using returnsD [OF serve_dns_forward_ok [OF L assms(2)], of "is_tcp a" st s] by auto
  moreover from this have "section_effect req [] s (if store then Storing i resp else Finished, s')" for store i
    using forward_effect_section [OF _ assms(3,4)] by blast
  from this [of True] this [of False] have "section_effect req [] s (Storing i resp, s')"
    "section_effect req [] s (Finished, s')" for i by simp_all
  ultimately show ?thesis by (simp add: forward_step_def)
qed

lemma lookup_step_effect:
  assumes "lookup_step E i a req q rs h s = Inr (h', s')" "env_laws E"
    and "m_question req = [q]" "question_ok q" "cache_echo (rcache s)" "lookup_ok req h"
  shows "lookup_ok req h' \<and> cache_echo (rcache s') \<and> written s' = written s"
proof -
  have id: "m_id (base_reply (lib E) req) = m_id req"
    by (rule base_reply_simps [OF env_lawsD(1) [OF assms(2)]])
  obtain c where "hit_step (clock E i) q (snd (client_limits (lib E) a req)) (is_tcp a) (m_id req)
      (stale_enabled E) rs h (rcache s) = Inr (h', c)" "s' = s\<lparr>rcache := c\<rparr>"
    using assms(1) unfolding lookup_step_def id by (auto simp: go_bind)
  with hit_step_matches [OF this(1) assms(5,6,3,4)] show ?thesis by simp
qed

lemma stage_lookup: "stage_ok req (Fresh h) ms \<Longrightarrow> lookup_ok req h \<and> ms = []"
  "stage_ok req (Stale h) ms \<Longrightarrow> lookup_ok req h \<and> ms = []"
  by auto

text \<open>Every section keeps the cache consistent and leaves the request in a legal stage.\<close>

lemma serve_step_effect:
  assumes "env_ok E" "m_question req = [q]" "question_ok q" "cache_echo (rcache s)"
    and "stage_ok req p ms" "p \<noteq> Finished" "serve_step E a req p s = Inr x"
  shows "section_effect req ms s x"
proof -
  have L: "env_laws E" and o: "orders_ok (visit E i)" for i using assms(1) by (simp_all add: env_ok_def)
  obtain bufsize d where lim: "client_limits (lib E) a req = (bufsize, d)" by fastforce
  note simps = serve_step_simps [OF assms(2) lim]
  show ?thesis
  proof (cases p rule: phase_cases)
    case (looking W h)
    obtain h' s' i rs where "lookup_step E i a req q rs h s = Inr (h', s')" "x = (W h', s')"
      using serve_step_looking [OF assms(2) looking(2,3), of E a s] assms(7) looking(1) by (auto simp: go_bind)
    with lookup_step_effect [OF this(1) L assms(2-4)] assms(5) looking(1,2) show ?thesis
      by (auto simp: section_effect_def)
  next
    case (fresh r)
    with assms(4,5,7) simps(2,3) cached_reply_section [OF L assms(2) _ assms(4)] show ?thesis
      by (cases r) (auto simp: section_effect_def)
  next
    case missed
    with returnsD [OF missed_step_effect [OF assms(1-4)], of a] assms(5,7) simps(4) show ?thesis by auto
  next
    case (stale r)
    then have "\<And>m. r = Some m \<Longrightarrow> reply_matches req m" using assms(5) by auto
    from returnsD [OF forward_step_effect [where st = r and a = a, OF assms(1,2,4) this]] stale assms(5,7)
      simps(5) show ?thesis by auto
  next
    case (answering m)
    with local_reply_section [OF assms(1-3) _ assms(4)] assms(5,7) simps(8) show ?thesis by auto
  next
    case (storing i m)
    then have "name_types m = [(q_name q, q_type q)]"
      using assms(2,5) by (auto simp: reply_matches_def name_types_def)
    from cache_echo_insert [OF assms(4) o assms(3) this] storing assms(5,7) simps(6) show ?thesis
      by (auto simp: section_effect_def)
  qed (use assms(4-7) simps(1) in \<open>auto simp: section_effect_def\<close>)
qed

text \<open>
  A section panics only where it counts a hit through a key that is gone, for which it needs an
  entry that was found before, or where an upstream server sends a reply without a question.
\<close>

fun holds_entry :: "phase \<Rightarrow> string option" where
  "holds_entry (Fresh (Found k r v se)) = Some k"
| "holds_entry (Stale (Found k r v se)) = Some k"
| "holds_entry p = None"

lemma asking_steps_return:
  assumes "documented E" "\<not> question_less_reply E" "m_question req = [q]"
  shows "\<exists>x. missed_step E a req q s = Inr x" "\<exists>x. forward_step E a req st s = Inr x"
proof -
  note laws = documented_asks [OF assms(1,2)]
  obtain x s1 where "serve_dns_reverse E (is_tcp a) req s = Inr (x, s1)"
    using returnsD [OF asks.serve_dns_reverse_good [OF laws assms(3)], of "is_tcp a" s] by auto
  then show "\<exists>x. missed_step E a req q s = Inr x"
    by (cases x) (simp add: missed_step_def Let_def)
  obtain y s2 where "serve_dns_forward E (is_tcp a) req st s = Inr (y, s2)"
    using returnsD [OF asks.serve_dns_forward_good [OF laws assms(3)], of "is_tcp a" st s] by auto
  then show "\<exists>x. forward_step E a req st s = Inr x"
    by (cases y) (simp add: forward_step_def)
qed

lemma serve_step_panic:
  assumes "documented E" "m_question req = [q]" "serve_step E a req p s = Inl e"
  shows "(\<exists>k. holds_entry p = Some k \<and> fmlookup (entries (rcache s)) k = None) \<or> question_less_reply E"
proof -
  obtain bufsize d where lim: "client_limits (lib E) a req = (bufsize, d)" by fastforce
  note simps = serve_step_simps [OF assms(2) lim]
  note return = asking_steps_return [OF assms(1) _ assms(2)]
  show ?thesis
  proof (cases p rule: phase_cases)
    case (looking W h)
    obtain i rs where "lookup_step E i a req q rs h s = Inl e"
      using serve_step_looking [OF assms(2) looking(2,3), of E a s] assms(3) looking(1) by (auto simp: go_bind)
    then obtain clk d t mid ks rs where "hit_step clk q d t mid ks rs h (rcache s) = Inl e"
      by (auto simp: lookup_step_def go_bind)
    from hit_step_panic [OF this] looking(1,2) show ?thesis by auto
  next
    case (fresh r)
    with assms(3) simps(2,3) show ?thesis by (cases r) auto
  next
    case missed
    with assms(3) simps(4) return(1) [of a s] show ?thesis by auto
  next
    case (stale r)
    with assms(3) simps(5) return(2) [of a r s] show ?thesis by auto
  qed (use assms(3) simps in auto)
qed

text \<open>Every section brings the request nearer to its end.\<close>

lemma serve_step_rank:
  assumes "m_question req = [q]" "p \<noteq> Finished" "serve_step E a req p s = Inr (p', s')"
  shows "phase_rank p' < phase_rank p"
proof -
  obtain bufsize d where lim: "client_limits (lib E) a req = (bufsize, d)" by fastforce
  note simps = serve_step_simps [OF assms(1) lim]
  show ?thesis
  proof (cases p rule: phase_cases)
    case (looking W h)
    obtain i rs h' where "lookup_step E i a req q rs h s = Inr (h', s')" "p' = W h'"
      using serve_step_looking [OF assms(1) looking(2,3), of E a s] assms(3) looking(1) by (auto simp: go_bind)
    moreover from this(1) looking(3) have "hit_rank h' < hit_rank h"
      by (auto simp: lookup_step_def go_bind dest: hit_step_rank)
    ultimately show ?thesis using looking(1,2) by auto
  next
    case (fresh r)
    with assms(3) simps(2,3) show ?thesis by (cases r) auto
  next
    case missed
    with assms(3) simps(4) show ?thesis
      by (auto simp: missed_step_def lim Let_def go_bind split: if_splits)
  next
    case (stale r)
    with assms(3) simps(5) show ?thesis by (auto simp: forward_step_def go_bind split: if_splits)
  qed (use assms(2,3) simps in auto)
qed

text \<open>The cache keeps its capacity and its size bound.\<close>

lemma within_insert_answer:
  "env_ok E \<Longrightarrow> within cap (rcache s) \<Longrightarrow> within cap (rcache (insert_answer E i k m s))"
  using insert_answer_ok [of E s] by (simp add: within_def)

lemma within_local_reply:
  "env_ok E \<Longrightarrow> within cap (rcache s) \<Longrightarrow> within cap (rcache (local_reply E tcp b d req q m s))"
  using local_reply_cache [of E s] by (simp add: within_def)

lemma serve_step_within:
  assumes "env_ok E" "m_question req = [q]" "within cap (rcache s)" "serve_step E a req p s = Inr (p', s')"
  shows "within cap (rcache s')"
proof -
  obtain bufsize d where lim: "client_limits (lib E) a req = (bufsize, d)" by fastforce
  note simps = serve_step_simps [OF assms(2) lim]
  show ?thesis
  proof (cases p rule: phase_cases)
    case (looking W h)
    obtain h' i rs where "lookup_step E i a req q rs h s = Inr (h', s')"
      using serve_step_looking [OF assms(2) looking(2,3), of E a s] assms(4) looking(1) by (auto simp: go_bind)
    then show ?thesis
      using assms(3) by (auto simp: lookup_step_def go_bind within_def dest: hit_step_ok)
  next
    case (fresh r)
    with assms(3,4) simps(2,3) show ?thesis
      by (cases r) (auto simp: cached_reply_def Let_def case_prod_beta)
  next
    case missed
    have "rcache s' = rcache s" if "serve_dns_reverse E (is_tcp a) req s = Inr (x, s')" for x
      using forward_cache [OF assms(1,2)] that by blast
    with missed assms(3,4) simps(4) show ?thesis
      by (auto simp: missed_step_def lim Let_def go_bind split: if_splits)
  next
    case (stale r)
    have "rcache s' = rcache s" if "serve_dns_forward E (is_tcp a) req r s = Inr (x, s')" for x
      using forward_cache [OF assms(1,2)] that by blast
    with stale assms(3,4) simps(5) show ?thesis by (auto simp: forward_step_def go_bind)
  next
    case (answering m)
    with assms(4) simps(8) within_local_reply [OF assms(1,3)] show ?thesis by auto
  next
    case (storing i m)
    with assms(4) simps(6) within_insert_answer [OF assms(1,3)] show ?thesis by auto
  qed (use assms(3,4) simps in auto)
qed

text \<open>An entry is held only after it was found in an enabled cache.\<close>

lemma hit_step_holds:
  "hit_step clk q d t mid ks rs h c = Inr (Found k r v se, c') \<Longrightarrow> 0 < capacity c"
  by (cases h) (auto simp: Let_def go_bind search_def split: prod.splits if_splits option.splits)

lemma holds_entry_looking:
  "W = Fresh \<or> W = Stale \<Longrightarrow> holds_entry (W h) \<noteq> None \<Longrightarrow> \<exists>k r v se. h = Found k r v se"
  by (cases h) auto

lemma serve_step_holds:
  assumes "m_question req = [q]" "serve_step E a req p s = Inr (p', s')" "holds_entry p' \<noteq> None"
  shows "0 < capacity (rcache s)"
proof -
  obtain bufsize d where lim: "client_limits (lib E) a req = (bufsize, d)" by fastforce
  note simps = serve_step_simps [OF assms(1) lim]
  show ?thesis
  proof (cases p rule: phase_cases)
    case (looking W h)
    obtain h' i rs where h': "lookup_step E i a req q rs h s = Inr (h', s')" "p' = W h'"
      using serve_step_looking [OF assms(1) looking(2,3), of E a s] assms(2) looking(1) by (auto simp: go_bind)
    then obtain k r v se where "h' = Found k r v se"
      using holds_entry_looking [OF looking(2), of h'] assms(3) by auto
    with h'(1) show ?thesis by (auto simp: lookup_step_def go_bind dest: hit_step_holds)
  next
    case (fresh r)
    with assms(2,3) simps(2,3) show ?thesis by (cases r) auto
  next
    case missed
    with assms(2,3) simps(4) show ?thesis
      by (auto simp: missed_step_def lim Let_def go_bind split: if_splits)
  next
    case (stale r)
    with assms(2,3) simps(5) show ?thesis by (auto simp: forward_step_def go_bind split: if_splits)
  qed (use assms(2,3) simps in auto)
qed

end
