(* ===== verification/Live_Server.thy ===== *)
theory Live_Server
  imports Server_Concurrent Server_Props
begin

text \<open>
  The running server as a transition system: any number of requests, each in a goroutine of its
  own, and the goroutine that polls the hosts file. A step is one section of one request, or one
  tick of the polling loop; a run is an interleaving of such steps.
\<close>

section \<open>The system\<close>

text \<open>
  Request \<open>i\<close> of a run: its surroundings, the client's address, and the message. Its lookups in
  the hosts file see the list at the time of the section that makes them.
\<close>

type_synonym requests = "nat \<Rightarrow> env \<times> remote_addr \<times> msg"

record system =
  srv :: server
  live_hosts :: hostsfile
  polled_file :: file_meta
  phases :: "nat \<Rightarrow> phase"
  replies :: "nat \<Rightarrow> msg list"
  halted :: bool

definition at_hosts :: "env \<Rightarrow> hostsfile \<Rightarrow> env" where
  "at_hosts E h = E\<lparr>find_hosts := hostsfile_find_hosts h,
                    find_reverse := hostsfile_find_reverse (lib E) h\<rparr>"

text \<open>Request \<open>i\<close> goes on to stage \<open>p\<close>; what it has written since goes to its client.\<close>

definition advance :: "nat \<Rightarrow> phase \<Rightarrow> server \<Rightarrow> system \<Rightarrow> system" where
  "advance i p s w =
     w\<lparr>srv := s, phases := (phases w)(i := p),
       replies := (replies w)(i := replies w i @ drop (length (written (srv w))) (written s))\<rparr>"

datatype label = Request nat | Poll

inductive system_step :: "requests \<Rightarrow> label \<Rightarrow> system \<Rightarrow> system \<Rightarrow> bool" for J where
  serve: "\<not> halted w \<Longrightarrow> phases w i \<noteq> Finished \<Longrightarrow> J i = (E, a, req) \<Longrightarrow>
     serve_step (at_hosts E (live_hosts w)) a req (phases w i) (srv w) = Inr (p, s) \<Longrightarrow>
     system_step J (Request i) w (advance i p s w)"
| serve_panic: "\<not> halted w \<Longrightarrow> phases w i \<noteq> Finished \<Longrightarrow> J i = (E, a, req) \<Longrightarrow>
     serve_step (at_hosts E (live_hosts w)) a req (phases w i) (srv w) = Inl e \<Longrightarrow>
     system_step J (Request i) w (w\<lparr>halted := True\<rparr>)"
| poll: "\<not> halted w \<Longrightarrow> monitor_tick stat read (live_hosts w, polled_file w) = Inr (h, f) \<Longrightarrow>
     system_step J Poll w (w\<lparr>live_hosts := h, polled_file := f\<rparr>)"
| poll_panic: "\<not> halted w \<Longrightarrow> monitor_tick stat read (live_hosts w, polled_file w) = Inl e \<Longrightarrow>
     system_step J Poll w (w\<lparr>halted := True\<rparr>)"

inductive_cases request_stepE: "system_step J (Request i) w w'"
inductive_cases poll_stepE: "system_step J Poll w w'"

text \<open>A run: the labels of its steps, first to last.\<close>

inductive runs :: "requests \<Rightarrow> label list \<Rightarrow> system \<Rightarrow> system \<Rightarrow> bool" for J where
  run_none: "runs J [] w w"
| run_more: "system_step J l w v \<Longrightarrow> runs J ls v u \<Longrightarrow> runs J (l # ls) w u"

inductive_simps runs_Nil [simp]: "runs J [] w u"
inductive_simps runs_Cons: "runs J (l # ls) w u"

definition boot :: "config \<Rightarrow> hostsfile \<Rightarrow> system" where
  "boot C h =
     \<lparr>srv = new_server C, live_hosts = h, polled_file = hf_file h, phases = (\<lambda>_. Arrived),
      replies = (\<lambda>_. []), halted = False\<rparr>"

lemma runs_append: "runs J ls w v \<Longrightarrow> runs J ks v u \<Longrightarrow> runs J (ls @ ks) w u"
  by (induction rule: runs.induct) (auto simp: runs_Cons)

lemma advance_simps [simp]:
  "srv (advance i p s w) = s" "live_hosts (advance i p s w) = live_hosts w"
  "polled_file (advance i p s w) = polled_file w" "phases (advance i p s w) = (phases w)(i := p)"
  "halted (advance i p s w) = halted w"
  by (simp_all add: advance_def)

lemma halted_stuck: "system_step J l w w' \<Longrightarrow> \<not> halted w"
  by (auto elim: system_step.cases)

section \<open>The invariant\<close>

definition requests_ok :: "requests \<Rightarrow> bool" where
  "requests_ok J \<longleftrightarrow> (\<forall>i. case J i of (E, a, req) \<Rightarrow> env_ok E \<and> request_ok req)"

lemma requests_okD: "requests_ok J \<Longrightarrow> J i = (E, a, req) \<Longrightarrow> env_ok E \<and> request_ok req"
  by (auto simp: requests_ok_def dest: spec [of _ i])

lemma at_hosts_simps [simp]:
  "lib (at_hosts E h) = lib E" "conf (at_hosts E h) = conf E" "clock (at_hosts E h) = clock E"
  "stale_enabled (at_hosts E h) = stale_enabled E"
  by (simp_all add: at_hosts_def stale_enabled_def)

lemma arrival:
  assumes "\<not> halted w" "phases w i = Arrived" "J i = (E, a, req)" "m_question req = [q]"
    and "client_limits (lib E) a req = (bufsize, d)"
  shows "system_step J (Request i) w (advance i (Fresh Idle) (counted_request d (srv w)) w)"
  using serve_step_simps(1) [where E = "at_hosts E (live_hosts w)" and a = a and bufsize = bufsize, OF assms(4)]
    assms by (intro serve) auto

lemma env_ok_at_hosts [simp]: "env_ok (at_hosts E h) = env_ok E"
  by (simp add: env_ok_def at_hosts_def env_laws_def upstream_law_def stub_law_def)

definition request_of :: "requests \<Rightarrow> nat \<Rightarrow> msg" where
  "request_of J i = snd (snd (J i))"

definition system_ok :: "requests \<Rightarrow> int \<Rightarrow> system \<Rightarrow> bool" where
  "system_ok J cap w \<longleftrightarrow>
     cache_echo (rcache (srv w)) \<and> within cap (rcache (srv w)) \<and>
     hosts_ok (hf_hosts (live_hosts w)) \<and> hf_file (live_hosts w) = polled_file w \<and>
     (\<forall>i. stage_ok (request_of J i) (phases w i) (replies w i)) \<and>
     (cap \<le> 0 \<longrightarrow> (\<forall>i. holds_entry (phases w i) = None))"

lemma system_ok_boot: "hosts_ok (hf_hosts h) \<Longrightarrow> system_ok J (cfg_rcache C) (boot C h)"
  by (simp add: system_ok_def boot_def new_server_def cache_echo_new within_def cache_ok_new)

lemma serve_section:
  assumes "requests_ok J" "system_ok J cap w" "phases w i \<noteq> Finished" "J i = (E, a, req)"
    and "serve_step (at_hosts E (live_hosts w)) a req (phases w i) (srv w) = Inr (p, s)"
  shows "section_effect req (replies w i) (srv w) (p, s)" "system_ok J cap (advance i p s w)"
    and "phase_rank p < phase_rank (phases w i)"
proof -
  have E: "env_ok (at_hosts E (live_hosts w))" and req: "request_of J i = req"
    using requests_okD [OF assms(1,4)] assms(4) by (simp_all add: request_of_def)
  obtain q where q: "m_question req = [q]" "question_ok q"
    using requests_okD [OF assms(1,4)] by (auto simp: request_ok_def)
  note w = assms(2) [unfolded system_ok_def]
  have st: "stage_ok req (phases w i) (replies w i)" using w req by metis
  show eff: "section_effect req (replies w i) (srv w) (p, s)"
    by (rule serve_step_effect [OF E q _ st assms(3,5)]) (use w in simp)
  have "within cap (rcache s)"
    by (rule serve_step_within [OF E q(1) _ assms(5)]) (use w in simp)
  moreover have "holds_entry p = None" if "cap \<le> 0"
  proof (rule ccontr)
    assume "holds_entry p \<noteq> None"
    from serve_step_holds [OF q(1) assms(5) this] w that show False by (simp add: within_def)
  qed
  ultimately show "system_ok J cap (advance i p s w)"
    using w req eff by (auto simp: system_ok_def section_effect_def advance_def)
  show "phase_rank p < phase_rank (phases w i)" by (rule serve_step_rank [OF q(1) assms(3,5)])
qed

text \<open>The cause of a panic.\<close>

definition lost_entry :: "label \<Rightarrow> system \<Rightarrow> bool" where
  "lost_entry l w \<longleftrightarrow>
     (\<exists>i k. l = Request i \<and> holds_entry (phases w i) = Some k \<and>
            fmlookup (entries (rcache (srv w))) k = None)"

text \<open>A hosts file that the parser panics on.\<close>

definition bad_hosts_file :: "label \<Rightarrow> system \<Rightarrow> bool" where
  "bad_hosts_file l w \<longleftrightarrow>
     l = Poll \<and> (\<exists>read data e. read (f_path (hf_file (live_hosts w))) = Some data \<and> new_hostlist data = Inl e)"

text \<open>A request whose upstream servers send a reply without a question section.\<close>

definition asked_question_less :: "requests \<Rightarrow> label \<Rightarrow> bool" where
  "asked_question_less J l \<longleftrightarrow> (\<exists>i. l = Request i \<and> question_less_reply (fst (J i)))"

text \<open>What the causes need: documented libraries, and requests with one question.\<close>

definition requests_documented :: "requests \<Rightarrow> bool" where
  "requests_documented J \<longleftrightarrow>
     (\<forall>i. case J i of (E, a, req) \<Rightarrow> documented E \<and> length (m_question req) = 1)"

lemma requests_ok_documented:
  assumes "requests_ok J"
  shows "requests_documented J \<and> \<not> asked_question_less J l"
proof -
  have "documented (fst (J i)) \<and> \<not> question_less_reply (fst (J i)) \<and> length (m_question (snd (snd (J i)))) = 1" for i
  proof -
    obtain E a req where "J i = (E, a, req)" by (cases "J i") auto
    with requests_okD [OF assms this] laws_documented [of E] show ?thesis
      by (auto simp: env_ok_def request_ok_def)
  qed
  then show ?thesis
    by (auto simp: requests_documented_def asked_question_less_def split: prod.split) (metis fst_conv snd_conv)+
qed

lemma documented_at_hosts [simp]:
  "documented (at_hosts E h) = documented E" "question_less_reply (at_hosts E h) = question_less_reply E"
  by (simp_all add: documented_def question_less_reply_def at_hosts_def upstream_answers_def stub_law_def)

lemma panic_cause:
  assumes "requests_documented J" "system_step J l w w'" "halted w'"
  shows "lost_entry l w \<or> bad_hosts_file l w \<or> asked_question_less J l"
  using assms(2)
proof cases
  case (serve_panic i E a req e)
  obtain q where q: "m_question req = [q]" and E: "documented (at_hosts E (live_hosts w))"
    using assms(1) serve_panic(5)
    by (auto simp: requests_documented_def length_Suc_conv dest!: spec [of _ i])
  from serve_step_panic [OF E q serve_panic(6)] serve_panic(1,5) show ?thesis
    by (auto simp: lost_entry_def asked_question_less_def)
next
  case (poll_panic stat read e)
  then have "\<exists>data. read (f_path (hf_file (live_hosts w))) = Some data \<and> new_hostlist data = Inl e"
    by (auto simp: monitor_tick_def load_host_entries_def go_bind Let_def
        split: option.splits prod.splits if_splits)
  with poll_panic(1) show ?thesis by (auto simp: bad_hosts_file_def)
qed (use assms(3) halted_stuck [OF assms(2)] in auto)

lemma system_ok_step:
  assumes "requests_ok J" "system_ok J cap w" "system_step J l w w'"
  shows "system_ok J cap w'"
  using assms(3)
proof cases
  case (serve i E a req p s)
  then show ?thesis using serve_section(2) [OF assms(1,2)] by blast
next
  case (poll stat read h f)
  have "monitor_ok (live_hosts w, polled_file w)"
    using assms(2) by (simp add: system_ok_def monitor_ok_def)
  from monitor_tick_ok [OF poll(4) this] poll(2) assms(2) show ?thesis
    by (simp add: system_ok_def monitor_ok_def)
qed (use assms(2) in \<open>auto simp: system_ok_def\<close>)

lemma system_ok_runs:
  "runs J ls w w' \<Longrightarrow> requests_ok J \<Longrightarrow> system_ok J cap w \<Longrightarrow> system_ok J cap w'"
  by (induction rule: runs.induct) (auto intro: system_ok_step)

section \<open>Properties of every run\<close>

lemma system_ok_boot_run:
  "requests_ok J \<Longrightarrow> hosts_ok (hf_hosts h) \<Longrightarrow> runs J ls (boot C h) w \<Longrightarrow>
   system_ok J (cfg_rcache C) w"
  by (rule system_ok_runs [OF _ _ system_ok_boot])

lemma stage_replies: "stage_ok req p ms \<Longrightarrow> length ms \<le> 1 \<and> list_all (reply_matches req) ms"
  by (cases p) auto

lemma halted_by:
  assumes "runs J ls w w'" "requests_ok J" "system_ok J cap w" "\<not> halted w" "Poll \<notin> set ls" "cap \<le> 0"
  shows "\<not> halted w'"
  using assms
proof (induction rule: runs.induct)
  case (run_more l w v ls u)
  have "\<not> lost_entry l w" using run_more.prems(2,5) by (auto simp: lost_entry_def system_ok_def)
  moreover have "\<not> bad_hosts_file l w" using run_more.prems(4) by (auto simp: bad_hosts_file_def)
  ultimately have "\<not> halted v"
    using panic_cause [OF _ run_more.hyps(1)] requests_ok_documented [OF run_more.prems(1)] by blast
  with run_more system_ok_step [OF run_more.prems(1,2) run_more.hyps(1)] show ?case by auto
qed simp

text \<open>A request alone can always be brought to its end; no request takes more steps than its rank.\<close>

lemma finish_alone:
  assumes "requests_ok J" "system_ok J cap w" "\<not> halted w"
  shows "\<exists>ls w'. set ls \<subseteq> {Request i} \<and> length ls \<le> phase_rank (phases w i) \<and> runs J ls w w' \<and>
    (halted w' \<or> phases w' i = Finished)"
  using assms(2,3)
proof (induction "phase_rank (phases w i)" arbitrary: w rule: less_induct)
  case less
  obtain E a req where J: "J i = (E, a, req)" by (cases "J i") auto
  show ?case
  proof (cases "phases w i = Finished")
    case True
    then show ?thesis by (intro exI [of _ "[]"] exI [of _ w]) simp
  next
    case False
    note sec = serve_section [OF assms(1) less.prems(1) False J]
    show ?thesis
    proof (cases "serve_step (at_hosts E (live_hosts w)) a req (phases w i) (srv w)")
      case (Inl e)
      have "0 < phase_rank (phases w i)" using False by (cases "phases w i") auto
      moreover have "runs J [Request i] w (w\<lparr>halted := True\<rparr>)"
        using serve_panic [where J = J, OF less.prems(2) False J Inl] by (simp add: runs_Cons)
      ultimately show ?thesis
        by (intro exI [of _ "[Request i]"] exI [of _ "w\<lparr>halted := True\<rparr>"]) simp
    next
      case (Inr x)
      obtain p s where x: "x = (p, s)" by fastforce
      let ?v = "advance i p s w"
      obtain ls u where ls: "set ls \<subseteq> {Request i}" "length ls \<le> phase_rank p" "runs J ls ?v u"
          "halted u \<or> phases u i = Finished"
        using less.hyps [of ?v] sec(2,3) [OF Inr [unfolded x]] less.prems(2) by auto
      have "runs J (Request i # ls) w u"
        using run_more [OF serve [where J = J, OF less.prems(2) False J Inr [unfolded x]] ls(3)] .
      with ls sec(3) [OF Inr [unfolded x]] show ?thesis
        by (intro exI [of _ "Request i # ls"] exI [of _ u]) auto
    qed
  qed
qed

lemma steps_bounded:
  assumes "runs J ls w w'" "requests_ok J" "system_ok J cap w"
  shows "count_list ls (Request i) + (if halted w' then 0 else phase_rank (phases w' i))
    \<le> phase_rank (phases w i)"
  using assms
proof (induction rule: runs.induct)
  case (run_more l w v ls u)
  note IH = run_more.IH [OF run_more.prems(1) system_ok_step [OF run_more.prems run_more.hyps(1)]]
  from run_more.hyps(1) show ?case
  proof cases
    case (serve j E a req p s)
    from serve_section(3) [OF run_more.prems serve(4-6)] IH serve(1,2) show ?thesis
      by (cases "j = i") auto
  next
    case (serve_panic j E a req e)
    have "0 < phase_rank (phases w j)" using serve_panic(4) by (cases "phases w j") auto
    moreover have "ls = []" using run_more.hyps(2) serve_panic(2)
      by (cases ls) (auto simp: runs_Cons dest!: halted_stuck)
    ultimately show ?thesis using serve_panic(1,2) run_more.hyps(2) by (cases "j = i") auto
  qed (use IH in auto)
qed simp

text \<open>Concrete requests and a concrete start, for the witnesses.\<close>

definition sample_requests :: requests where
  "sample_requests i = (late_env sample_config, UDPAddr, sample_req)"

definition sample_system :: system where
  "sample_system = boot sample_config sample_hostsfile"

lemma sample_requests_ok [simp]: "requests_ok sample_requests"
  by (simp add: requests_ok_def sample_requests_def env_ok_def env_laws_def orders_ok_def late_env_def
      upstream_law_def stub_law_def silent_def sample_config_simps)

lemma sample_system_simps [simp]:
  "\<not> halted sample_system" "phases sample_system i = Arrived" "srv sample_system = new_server sample_config"
  "live_hosts sample_system = sample_hostsfile" "polled_file sample_system = hf_file sample_hostsfile"
  "hosts_ok (hf_hosts sample_hostsfile)"
  by (simp_all add: sample_system_def boot_def sample_hostsfile_def hosts_ok_def)

lemma sample_arrival:
  "system_step sample_requests (Request i) sample_system
     (advance i (Fresh Idle) (counted_request False (new_server sample_config)) sample_system)"
  using arrival [of sample_system i sample_requests "late_env sample_config" UDPAddr sample_req sample_q 512 False]
  by (simp add: sample_requests_def)

text \<open>
  In every run no request is answered twice, every reply carries the identifier, the name and the
  type of its own request, a request that is finished has its reply, and an enabled cache holds
  fewer entries than its capacity.
\<close>

definition answered :: "requests \<Rightarrow> config \<Rightarrow> nat \<Rightarrow> system \<Rightarrow> bool" where
  "answered J C i w \<longleftrightarrow>
     length (replies w i) \<le> 1 \<and> list_all (reply_matches (request_of J i)) (replies w i) \<and>
     (phases w i = Finished \<longrightarrow> length (replies w i) = 1) \<and>
     (0 < cfg_rcache C \<longrightarrow> int (cache_size (rcache (srv w))) < cfg_rcache C)"

lemma runs_answered:
  assumes "requests_ok J" "hosts_ok (hf_hosts h)" "runs J ls (boot C h) w"
  shows "answered J C i w"
proof -
  have w: "system_ok J (cfg_rcache C) w" by (rule system_ok_boot_run [OF assms])
  then have st: "stage_ok (request_of J i) (phases w i) (replies w i)" by (simp add: system_ok_def)
  then have "phases w i = Finished \<longrightarrow> length (replies w i) = 1" by auto
  with w stage_replies [OF st] show ?thesis
    by (auto simp: answered_def system_ok_def within_def cache_ok_def cache_size_def)
qed

text \<open>
  C4. What can stop the process: a step of the process, in whatever state, stops it only if it
  counts a hit on an entry that its own request found in the cache and that is not there any more,
  or reads a hosts file with a line that the parser panics on, or belongs to a request that an
  upstream server answers with a message that has no question section. The requests have one
  question, the stub zones have servers, and of the libraries nothing is assumed that they do not
  document; what upstream servers send is not restricted.
\<close>

theorem only_known_panics:
  assumes "requests_documented J" "system_step J l w w'" "halted w'"
  shows "lost_entry l w \<or> bad_hosts_file l w \<or> asked_question_less J l"
  by (rule panic_cause [OF assms])

theorem only_known_panics_witness:
  "lost_entry Poll sample_system \<or> bad_hosts_file Poll sample_system \<or>
   asked_question_less sample_requests Poll"
proof (rule only_known_panics)
  show "requests_documented sample_requests" using requests_ok_documented [OF sample_requests_ok] by blast
  have "new_hostlist ''127.0.0.1 a'' = Inl SliceBounds" by code_simp
  then show "system_step sample_requests Poll sample_system (sample_system\<lparr>halted := True\<rparr>)"
    by (intro poll_panic [where stat = "Some (1, 1)" and read = "\<lambda>_. Some ''127.0.0.1 a''" and e = SliceBounds])
      (simp_all add: monitor_tick_def sample_hostsfile_def load_host_entries_def Let_def)
qed simp

text \<open>
  C6. Progress: in every run no request takes more than eleven steps, and as long as the process is
  up, every request can be brought to its end by its own steps alone, whatever stage the others
  are in: it then has its reply, or the process has stopped, which needs an enabled cache.
\<close>

theorem every_request_can_finish:
  assumes "requests_ok J" "hosts_ok (hf_hosts h)" "runs J ls (boot C h) w" "\<not> halted w"
  shows "\<exists>ks w'. set ks \<subseteq> {Request i} \<and> count_list (ls @ ks) (Request i) \<le> 11 \<and> runs J ks w w' \<and>
    (if halted w' then 0 < cfg_rcache C
     else phases w' i = Finished \<and> (\<exists>m. replies w' i = [m] \<and> reply_matches (request_of J i) m))"
proof -
  let ?b = "boot C h"
  have b: "system_ok J (cfg_rcache C) ?b" by (rule system_ok_boot [OF assms(2)])
  have w: "system_ok J (cfg_rcache C) w" by (rule system_ok_boot_run [OF assms(1-3)])
  obtain ks w' where ks: "set ks \<subseteq> {Request i}" "runs J ks w w'" "halted w' \<or> phases w' i = Finished"
    using finish_alone [OF assms(1) w assms(4)] by blast
  have "count_list (ls @ ks) (Request i) \<le> 11"
    using steps_bounded [OF runs_append [OF assms(3) ks(2)] assms(1) b, of i] by (simp add: boot_def)
  moreover have "0 < cfg_rcache C" if "halted w'"
    using halted_by [OF ks(2) assms(1) w assms(4)] ks(1) that by fastforce
  moreover have "stage_ok (request_of J i) (phases w' i) (replies w' i)"
    using system_ok_runs [OF ks(2) assms(1) w] by (simp add: system_ok_def)
  ultimately show ?thesis using ks by (intro exI [of _ ks] exI [of _ w']) auto
qed

theorem every_request_can_finish_witness:
  "\<exists>ks w'. set ks \<subseteq> {Request 0} \<and> count_list ([] @ ks) (Request 0) \<le> 11 \<and>
    runs sample_requests ks sample_system w' \<and>
    (if halted w' then 0 < cfg_rcache sample_config
     else phases w' 0 = Finished \<and>
       (\<exists>m. replies w' 0 = [m] \<and> reply_matches (request_of sample_requests 0) m))"
  by (rule every_request_can_finish [OF sample_requests_ok sample_system_simps(6)])
    (simp_all add: sample_system_def [symmetric])

section \<open>Requests that do not overlap\<close>

lemma advance_same [simp]: "advance i (phases w i) (srv w) w = w"
  by (simp add: advance_def)

lemma advance_advance:
  assumes "written s = written (srv w) @ n" "written t = written s @ k"
  shows "advance i p t (advance i r s w) = advance i p t w"
  using assms by (simp add: advance_def)

lemma section_appends:
  "section_effect req ms s (p, t) \<Longrightarrow> \<exists>n. written t = written s @ n"
  by (auto simp: section_effect_def)

lemma runs_alone:
  assumes "requests_ok J" "system_ok J cap w" "\<not> halted w" "J i = (E, a, req)"
    and "run_alone (at_hosts E (live_hosts w)) a req k (phases w i) (srv w) = Inr (p, s)"
  shows "\<exists>ls. set ls \<subseteq> {Request i} \<and> runs J ls w (advance i p s w) \<and>
    (\<exists>n. written s = written (srv w) @ n)"
  using assms(2,3,5)
proof (induction k arbitrary: w)
  case 0
  then show ?case by (intro exI [of _ "[]"]) auto
next
  case (Suc k)
  obtain q where q: "m_question req = [q]"
    using requests_okD [OF assms(1,4)] by (auto simp: request_ok_def)
  show ?case
  proof (cases "phases w i = Finished")
    case True
    have "run_alone F a req n Finished t = Inr (Finished, t)" for F n t
      using serve_step_simps(7) [OF q] by (induction n) (simp_all, metis bind_go.simps(2) case_prod_conv surj_pair)
    with True Suc.prems(3) have "p = phases w i" "s = srv w" by (metis Inr_inject Pair_inject)+
    then show ?thesis by (intro exI [of _ "[]"]) auto
  next
    case False
    obtain r t where rt: "serve_step (at_hosts E (live_hosts w)) a req (phases w i) (srv w) = Inr (r, t)"
        "run_alone (at_hosts E (live_hosts w)) a req k r t = Inr (p, s)"
      using Suc.prems(3) by (auto simp: go_bind)
    note sec = serve_section [OF assms(1) Suc.prems(1) False assms(4) rt(1)]
    let ?v = "advance i r t w"
    obtain ls n where ls: "set ls \<subseteq> {Request i}" "runs J ls ?v (advance i p s ?v)" "written s = written t @ n"
      using Suc.IH [OF sec(2)] Suc.prems(2) rt(2) by auto
    obtain n0 where n0: "written t = written (srv w) @ n0" using section_appends [OF sec(1)] by blast
    have "runs J (Request i # ls) w (advance i p s w)"
      using run_more [OF serve [where J = J, OF Suc.prems(2) False assms(4) rt(1)] ls(2)]
        advance_advance [OF n0 ls(3)] by simp
    with ls n0 show ?thesis by (intro exI [of _ "Request i # ls"]) auto
  qed
qed

lemma request_in_isolation:
  assumes "requests_ok J" "system_ok J cap w" "\<not> halted w" "J i = (E, a, req)" "phases w i = Arrived"
    and "serve_dns (at_hosts E (live_hosts w)) a req (srv w) = Inr s"
  shows "\<exists>ls. set ls \<subseteq> {Request i} \<and> runs J ls w (advance i Finished s w) \<and>
    (\<exists>n. written s = written (srv w) @ n)"
proof -
  obtain q where q: "m_question req = [q]"
    using requests_okD [OF assms(1,4)] by (auto simp: request_ok_def)
  obtain k where "run_alone (at_hosts E (live_hosts w)) a req k (phases w i) (srv w) = Inr (Finished, s)"
    using request_alone [OF q assms(6)] assms(5) by (auto simp: leads_def)
  from runs_alone [OF assms(1-4) this] show ?thesis .
qed

text \<open>The first \<open>n\<close> requests, with a hosts file that does not change.\<close>

definition first_requests :: "requests \<Rightarrow> hostsfile \<Rightarrow> nat \<Rightarrow> (env \<times> remote_addr \<times> msg) list" where
  "first_requests J h n = map (\<lambda>i. case J i of (E, a, req) \<Rightarrow> (at_hosts E h, a, req)) [0..<n]"

lemma serve_all_append: "serve_all (rs @ ts) s = bind_go (serve_all rs s) (serve_all ts)"
proof (induction rs s rule: serve_all.induct)
  case (2 E a req rs s)
  then show ?case by (cases "serve_dns E a req s") simp_all
qed simp

text \<open>Steps of the first \<open>n\<close> requests, in order and without overlapping.\<close>

definition one_by_one :: "nat \<Rightarrow> label list \<Rightarrow> bool" where
  "one_by_one n ls \<longleftrightarrow> (\<exists>js. ls = map Request js \<and> sorted js \<and> (\<forall>j \<in> set js. j < n))"

lemma one_by_one_0 [simp]: "one_by_one 0 ls \<longleftrightarrow> ls = []"
  by (auto simp: one_by_one_def)

lemma only_request: "set ks \<subseteq> {Request i} \<Longrightarrow> ks = replicate (length ks) (Request i)"
  by (induction ks) auto

lemma one_by_one_snoc: "one_by_one n ls \<Longrightarrow> one_by_one (Suc n) (ls @ replicate k (Request n))"
proof -
  assume "one_by_one n ls"
  then obtain js where "ls = map Request js" "sorted js" "\<forall>j \<in> set js. j < n" by (auto simp: one_by_one_def)
  then show ?thesis
    unfolding one_by_one_def
    by (intro exI [of _ "js @ replicate k n"]) (auto simp: sorted_append less_Suc_eq dest: less_imp_le)
qed

lemma one_by_one_SucE:
  assumes "one_by_one (Suc n) ls"
  obtains ls1 k where "ls = ls1 @ replicate k (Request n)" "one_by_one n ls1"
proof -
  obtain js where js: "ls = map Request js" "sorted js" "\<forall>j \<in> set js. j < Suc n"
    using assms by (auto simp: one_by_one_def)
  let ?a = "takeWhile (\<lambda>j. j < n) js" and ?b = "dropWhile (\<lambda>j. j < n) js"
  have "\<forall>j \<in> set ?b. j = n"
  proof (cases ?b)
    case (Cons x xs)
    then have "\<not> x < n" using hd_dropWhile [of "\<lambda>j. j < n" js] by simp
    moreover have "sorted (x # xs)" using sorted_dropWhile [OF js(2), of "\<lambda>j. j < n"] Cons by simp
    moreover have "\<forall>j \<in> set (x # xs). j < Suc n" using js(3) Cons by (metis set_dropWhileD)
    ultimately show ?thesis using Cons by fastforce
  next
    case Nil
    then show ?thesis by (metis empty_iff list.set(1))
  qed
  then have "?b = replicate (length ?b) n" by (metis replicate_length_same)
  then have "ls = map Request ?a @ replicate (length ?b) (Request n)"
    using js(1) by (metis map_append map_replicate takeWhile_dropWhile_id)
  moreover have "one_by_one n (map Request ?a)"
    using js(2) by (auto simp: one_by_one_def sorted_takeWhile dest: set_takeWhileD)
  ultimately show thesis by (rule that)
qed

lemma runs_split: "runs J (ls @ ks) w u \<Longrightarrow> \<exists>v. runs J ls w v \<and> runs J ks v u"
proof (induction ls arbitrary: w)
  case (Cons l ls)
  then show ?case by (fastforce simp: runs_Cons)
qed auto

text \<open>A step of a request is determined by the state, and a finished request has none.\<close>

lemma request_step_unique:
  "system_step J (Request i) w u \<Longrightarrow> system_step J (Request i) w v \<Longrightarrow> u = v"
  by (auto elim!: request_stepE)

lemma request_runs_unique:
  "runs J (replicate k (Request i)) w u \<Longrightarrow> runs J (replicate l (Request i)) w v \<Longrightarrow>
   phases u i = Finished \<Longrightarrow> phases v i = Finished \<Longrightarrow> u = v"
proof (induction k arbitrary: w l)
  case 0
  then show ?case by (cases l) (auto simp: runs_Cons elim: request_stepE)
next
  case (Suc k)
  show ?case
  proof (cases l)
    case 0
    with Suc.prems show ?thesis by (auto simp: runs_Cons elim: request_stepE)
  next
    case (Suc m)
    with Suc.prems request_step_unique show ?thesis
      by (auto simp: runs_Cons) (metis Suc.IH)
  qed
qed

lemma other_requests_unchanged: "runs J (replicate k (Request i)) w u \<Longrightarrow> j \<noteq> i \<Longrightarrow> phases u j = phases w j"
proof (induction k arbitrary: w)
  case (Suc k)
  then show ?case by (auto simp: runs_Cons elim!: request_stepE)
qed simp

text \<open>All requests of the sequence are served: the server is in state \<open>s\<close>, each client has its reply.\<close>

definition served :: "hostsfile \<Rightarrow> nat \<Rightarrow> server \<Rightarrow> system \<Rightarrow> bool" where
  "served h n s w \<longleftrightarrow> \<not> halted w \<and> srv w = s \<and> live_hosts w = h \<and>
     (\<forall>i < n. phases w i = Finished) \<and> (\<forall>i \<ge> n. phases w i = Arrived) \<and>
     map (replies w) [0..<n] = map (\<lambda>m. [m]) (written s)"

lemma served_Suc:
  assumes "requests_ok J" "system_ok J cap w" "served h n t w" "J n = (E, a, req)"
    and "serve_dns (at_hosts E h) a req t = Inr s"
  shows "\<exists>k. runs J (replicate k (Request n)) w (advance n Finished s w) \<and>
    served h (Suc n) s (advance n Finished s w)"
proof -
  note w = assms(3) [unfolded served_def]
  obtain ks m where ks: "set ks \<subseteq> {Request n}" "runs J ks w (advance n Finished s w)" "written s = written t @ m"
    using request_in_isolation [OF assms(1,2) _ assms(4)] w assms(5) by auto
  then have run: "runs J (replicate (length ks) (Request n)) w (advance n Finished s w)"
    using only_request by metis
  have "system_ok J cap (advance n Finished s w)" by (rule system_ok_runs [OF run assms(1,2)])
  then have "stage_ok (request_of J n) (phases (advance n Finished s w) n) (replies (advance n Finished s w) n)"
    unfolding system_ok_def by blast
  then have "length (replies (advance n Finished s w) n) = 1" by auto
  moreover have "replies w n = []" using assms(2) w by (auto simp: system_ok_def dest: spec [of _ n])
  ultimately have "length m = 1" using ks(3) w by (simp add: advance_def)
  then have "served h (Suc n) s (advance n Finished s w)"
    using w ks(3) \<open>replies w n = []\<close> by (auto simp: served_def advance_def less_Suc_eq length_Suc_conv)
  with run show ?thesis by blast
qed

lemma served_boot: "served h 0 (new_server C) (boot C h)"
  by (auto simp: served_def boot_def new_server_def)

lemma serve_all_first:
  assumes "serve_all (first_requests J h (Suc n)) s0 = Inr s" "J n = (E, a, req)"
  obtains t where "serve_all (first_requests J h n) s0 = Inr t" "serve_dns (at_hosts E h) a req t = Inr s"
  using assms by (auto simp: first_requests_def serve_all_append go_bind)

lemma one_by_one_exists:
  assumes "requests_ok J" "hosts_ok (hf_hosts h)"
    and "serve_all (first_requests J h n) (new_server C) = Inr s"
  shows "\<exists>ls w. one_by_one n ls \<and> runs J ls (boot C h) w \<and> served h n s w"
  using assms(3)
proof (induction n arbitrary: s)
  case 0
  then show ?case using served_boot by (auto simp: first_requests_def)
next
  case (Suc n)
  obtain E a req where J: "J n = (E, a, req)" by (cases "J n") auto
  from serve_all_first [OF Suc.prems J] obtain t where t: "serve_all (first_requests J h n) (new_server C) = Inr t"
      "serve_dns (at_hosts E h) a req t = Inr s" .
  obtain ls w where w: "one_by_one n ls" "runs J ls (boot C h) w" "served h n t w" using Suc.IH [OF t(1)] by blast
  from served_Suc [OF assms(1) system_ok_boot_run [OF assms(1,2) w(2)] w(3) J t(2)]
  show ?case using one_by_one_snoc [OF w(1)] runs_append [OF w(2)] by blast
qed

lemma one_by_one_served:
  assumes "requests_ok J" "hosts_ok (hf_hosts h)"
    and "serve_all (first_requests J h n) (new_server C) = Inr s"
    and "one_by_one n ls" "runs J ls (boot C h) w" "\<forall>i < n. phases w i = Finished"
  shows "served h n s w"
  using assms(3-6)
proof (induction n arbitrary: s ls w)
  case 0
  then show ?case using served_boot by (auto simp: first_requests_def)
next
  case (Suc n)
  obtain E a req where J: "J n = (E, a, req)" by (cases "J n") auto
  from serve_all_first [OF Suc.prems(1) J] obtain t where t: "serve_all (first_requests J h n) (new_server C) = Inr t"
      "serve_dns (at_hosts E h) a req t = Inr s" .
  obtain ls1 k where ls: "ls = ls1 @ replicate k (Request n)" "one_by_one n ls1"
    using Suc.prems(2) by (rule one_by_one_SucE)
  obtain v where v: "runs J ls1 (boot C h) v" "runs J (replicate k (Request n)) v w"
    using runs_split Suc.prems(3) ls(1) by blast
  have "\<forall>i < n. phases v i = Finished"
    using other_requests_unchanged [OF v(2)] Suc.prems(4) by (metis less_Suc_eq less_irrefl)
  from served_Suc [OF assms(1) system_ok_boot_run [OF assms(1,2) v(1)] Suc.IH [OF t(1) ls(2) v(1) this] J t(2)]
  obtain l where l: "runs J (replicate l (Request n)) v (advance n Finished s v)"
      "served h (Suc n) s (advance n Finished s v)" by blast
  have "w = advance n Finished s v"
    by (rule request_runs_unique [OF v(2) l(1)]) (use Suc.prems(4) in simp_all)
  with l(2) show ?case by simp
qed

lemma first_requests_served:
  assumes "requests_ok J"
  obtains s where "serve_all (first_requests J h n) (new_server C) = Inr s"
proof -
  have "\<forall>(E, a, req) \<in> set (first_requests J h n). env_ok E \<and> request_ok req"
    using requests_okD [OF assms] by (auto simp: first_requests_def split: prod.splits)
  then show thesis
    using that returnsD [OF serve_all_ok] by (metis cache_echo_new new_server_def server.select_convs(1))
qed

text \<open>
  C10. Requests served one after the other: when the steps of the first \<open>n\<close> requests do not overlap
  and come in order, and the hosts file is not polled, every run that finishes them ends with the
  server in the one state that the sequential handler computes for them, without a panic, and each
  client with the one reply the handler writes for it; and there is such a run.
\<close>

theorem one_after_another_is_serve_all:
  assumes "requests_ok J" "hosts_ok (hf_hosts h)"
  shows "\<exists>s. serve_all (first_requests J h n) (new_server C) = Inr s \<and>
    (\<exists>ls w. one_by_one n ls \<and> runs J ls (boot C h) w \<and> served h n s w) \<and>
    (\<forall>ls w. one_by_one n ls \<longrightarrow> runs J ls (boot C h) w \<longrightarrow> (\<forall>i < n. phases w i = Finished) \<longrightarrow> served h n s w)"
proof -
  obtain s where s: "serve_all (first_requests J h n) (new_server C) = Inr s"
    using first_requests_served [OF assms(1)] .
  with one_by_one_exists [OF assms s] one_by_one_served [OF assms s] show ?thesis by blast
qed

definition as_in_sequence :: "requests \<Rightarrow> hostsfile \<Rightarrow> nat \<Rightarrow> config \<Rightarrow> bool" where
  "as_in_sequence J h n C \<longleftrightarrow> (\<exists>s. serve_all (first_requests J h n) (new_server C) = Inr s \<and>
    (\<exists>ls w. one_by_one n ls \<and> runs J ls (boot C h) w \<and> served h n s w) \<and>
    (\<forall>ls w. one_by_one n ls \<longrightarrow> runs J ls (boot C h) w \<longrightarrow> (\<forall>i < n. phases w i = Finished) \<longrightarrow> served h n s w))"

theorem one_after_another_is_serve_all_witness:
  "as_in_sequence sample_requests sample_hostsfile 2 sample_config"
  unfolding as_in_sequence_def
  by (rule one_after_another_is_serve_all [OF sample_requests_ok sample_system_simps(6)])

section \<open>Requests that race\<close>

lemma fresh_lookup:
  assumes "\<not> halted w" "phases w i = Fresh h" "hit_rank h \<noteq> 0" "J i = (E, a, req)" "m_question req = [q]"
    and "client_limits (lib E) a req = (bufsize, d)"
  shows "hit_step (clock E 0) q d (is_tcp a) (m_id (base_reply (lib E) req)) (stale_enabled E) False h
      (rcache (srv w)) = Inr (p, c) \<Longrightarrow>
    system_step J (Request i) w (advance i (Fresh p) ((srv w)\<lparr>rcache := c\<rparr>) w)"
    and "hit_step (clock E 0) q d (is_tcp a) (m_id (base_reply (lib E) req)) (stale_enabled E) False h
      (rcache (srv w)) = Inl e \<Longrightarrow> system_step J (Request i) w (w\<lparr>halted := True\<rparr>)"
  using serve_step_lookups(1) [where E = "at_hosts E (live_hosts w)" and a = a and s = "srv w", OF assms(5,3)]
    assms by (auto intro!: serve serve_panic simp: lookup_step_def)

text \<open>
  C9. Race: two requests with the same question can stop the process whenever the cache has an
  answer for it that is within its time to live and past its stale expiry, as every entry is from
  the instant of its insertion on when no stale period is configured. Both find the entry, one
  counts its hit and removes the entry, and the other counts its hit through the missing entry.
\<close>

theorem racing_requests_can_panic:
  assumes "\<not> halted w" "i \<noteq> j" "phases w i = Arrived" "phases w j = Arrived"
    and "J i = (E, a, req)" "m_question req = [q]" "client_limits (lib E) a req = (b1, d)"
    and "J j = (F, b, req')" "m_question req' = [q]" "client_limits (lib F) b req' = (b2, d)"
    and "is_tcp a = is_tcp b" "0 < capacity (rcache (srv w))"
    and "fmlookup (entries (rcache (srv w))) (cache_key q d (is_tcp b)) = Some e"
    and "clock E 0 0 < expiration e" "clock F 0 0 < expiration e" "stale_expiration e < clock E 0 1"
  shows "\<exists>ls w'. set ls \<subseteq> {Request i, Request j} \<and> runs J ls w w' \<and> halted w'"
proof -
  let ?k = "cache_key q d (is_tcp b)" and ?c = "rcache (srv w)" and ?se = "stale_expiration e"
  let ?c1 = "?c\<lparr>entries := fmupd ?k (counted True e) (entries ?c)\<rparr>"
  let ?r = "hit_reply (m_id (base_reply (lib E) req)) (e_msg e)"
  let ?r' = "hit_reply (m_id (base_reply (lib F) req')) (e_msg e)"
  let ?s1 = "counted_request d (srv w)" let ?s2 = "counted_request d ?s1"
  let ?w1 = "advance i (Fresh Idle) ?s1 w"
  let ?w2 = "advance i (Fresh (Found ?k ?r True ?se)) (?s1\<lparr>rcache := ?c\<rparr>) ?w1"
  let ?w3 = "advance j (Fresh Idle) (counted_request d (?s1\<lparr>rcache := ?c\<rparr>)) ?w2"
  let ?s3 = "(counted_request d (?s1\<lparr>rcache := ?c\<rparr>))\<lparr>rcache := ?c\<rparr>"
  let ?w4 = "advance j (Fresh (Found ?k ?r' True ?se)) ?s3 ?w3"
  let ?w5 = "advance i (Fresh (Counted ?k ?r ?se)) (?s3\<lparr>rcache := ?c1\<rparr>) ?w4"
  let ?w6 = "advance i (Fresh (Done (Some ?r))) (?s3\<lparr>rcache := ?c1, rcache := remove ?k ?c1\<rparr>) ?w5"
  let ?ls = "[Request i, Request i, Request j, Request j, Request i, Request i, Request j]"
  note found = search_Some [OF assms(12,13)]
  note I = fresh_lookup [where J = J and i = i, OF _ _ _ assms(5-7)]
  note J = fresh_lookup [where J = J and i = j, OF _ _ _ assms(8-10)]
  have "system_step J (Request i) w ?w1" by (rule arrival [where J = J, OF assms(1,3,5-7)])
  moreover have "system_step J (Request i) ?w1 ?w2"
    using I(1) [of ?w1 Idle "Found ?k ?r True ?se" ?c] assms found by (auto simp: Let_def)
  moreover have "system_step J (Request j) ?w2 ?w3"
    using arrival [of ?w2 j J F b req' q b2 d] assms by simp
  moreover have "system_step J (Request j) ?w3 ?w4"
    using J(1) [of ?w3 Idle "Found ?k ?r' True ?se" ?c] assms found by (auto simp: Let_def)
  moreover have "system_step J (Request i) ?w4 ?w5"
    using I(1) [of ?w4 "Found ?k ?r True ?se" "Counted ?k ?r ?se" ?c1] assms by (auto simp: count_hit_Some)
  moreover have "system_step J (Request i) ?w5 ?w6"
    using I(1) [of ?w5 "Counted ?k ?r ?se" "Done (Some ?r)" "remove ?k ?c1"] assms by auto
  moreover have "system_step J (Request j) ?w6 (?w6\<lparr>halted := True\<rparr>)"
    using J(2) [of ?w6 "Found ?k ?r' True ?se" NilDeref] assms by (auto simp: count_hit_def)
  ultimately have run: "runs J ?ls w (?w6\<lparr>halted := True\<rparr>)"
    by - ((rule run_more, assumption)+, rule run_none)
  have "set ?ls \<subseteq> {Request i, Request j}" "halted (?w6\<lparr>halted := True\<rparr>)" by simp_all
  with run show ?thesis by blast
qed

theorem racing_requests_can_panic_witness:
  "\<exists>ls w'. set ls \<subseteq> {Request 0, Request 1} \<and>
    runs sample_requests ls (sample_system\<lparr>srv := (new_server sample_config)\<lparr>rcache := sample_cache 3 20 9\<rparr>\<rparr>) w' \<and>
    halted w'"
  by (rule racing_requests_can_panic [where E = "late_env sample_config" and F = "late_env sample_config"
        and a = UDPAddr and b = UDPAddr and req = sample_req and req' = sample_req and q = sample_q
        and d = False and e = "sample_elem 20 9"])
    (simp_all add: sample_requests_def is_tcp_def)

end
