(* ===== verification/Live_Counters.thy ===== *)
theory Live_Counters
  imports Live_Server
begin

text \<open>
  The counters of the running server. Requests count at different stages, so between two steps the
  counters are related to the stages that the requests have reached and not to finished requests
  only; the relations below hold in every state of every run.
\<close>

section \<open>What a section counts\<close>

text \<open>
  A request that has begun, one whose first lookup is settled as a hit or a miss, and one whose miss
  is counted while its reply is still to come.
\<close>

fun begun :: "phase \<Rightarrow> bool" where
  "begun Arrived = False"
| "begun p = True"

fun settled :: "phase \<Rightarrow> bool" where
  "settled Arrived = False"
| "settled (Fresh h) = False"
| "settled p = True"

fun pending :: "phase \<Rightarrow> bool" where
  "pending Missed = True"
| "pending (Answering m) = True"
| "pending (Stale h) = True"
| "pending p = False"

definition section_counts :: "phase \<Rightarrow> phase \<Rightarrow> stats \<Rightarrow> stats \<Rightarrow> bool" where
  "section_counts p p' c c' \<longleftrightarrow>
     c' RequestCount = c RequestCount + of_bool (begun p') - of_bool (begun p) \<and>
     c RequestCount \<le> c' RequestCount \<and> c CacheHit \<le> c' CacheHit \<and> c CacheMiss \<le> c' CacheMiss \<and>
     c' CacheHit + c' CacheMiss + of_bool (settled p)
       \<le> c CacheHit + c CacheMiss + of_bool (settled p') \<and>
     c' RequestFail + c' StaleCacheHit + of_bool (pending p') + c CacheMiss
       \<le> c RequestFail + c StaleCacheHit + of_bool (pending p) + c' CacheMiss \<and>
     c' ForwardCount + of_bool (pending p') + c CacheMiss
       \<le> c ForwardCount + of_bool (pending p) + c' CacheMiss \<and>
     c' DnssecOkCount + c RequestCount \<le> c DnssecOkCount + c' RequestCount \<and>
     c' RefusedCount = c RefusedCount \<and> c' LookupCount = c LookupCount \<and>
     c' DnssecCacheMiss = c DnssecCacheMiss"

lemma section_counts_forward:
  "forward_counts b c c' \<Longrightarrow> pending p \<Longrightarrow> settled p \<Longrightarrow> begun p \<Longrightarrow> \<not> pending p' \<Longrightarrow> settled p' \<Longrightarrow>
   begun p' \<Longrightarrow> section_counts p p' c c'"
  by (cases b) (simp_all add: section_counts_def forward_counts_def)

lemma local_reply_stats [simp]: "stats (local_reply E tcp b d req q m s) = stats s"
  by (simp add: local_reply_def Let_def case_prod_beta)

lemma section_counts_looking:
  "W = Fresh \<or> W = Stale \<Longrightarrow> section_counts (W h) (W h') c c"
  by (auto simp: section_counts_def)

lemma missed_step_counts:
  assumes "env_ok E" "m_question req = [q]" "missed_step E a req q s = Inr (p, s')"
  shows "section_counts Missed p (stats s) (stats s')"
proof -
  have L: "env_laws E" using assms(1) by (simp add: env_ok_def)
  have quiet: "section_counts Missed (Answering m) c c" "section_counts Missed (Stale h) c c" for m h c
    by (simp_all add: section_counts_def)
  have rev: "section_counts Missed p' (stats s) (stats t)"
    if "serve_dns_reverse E (is_tcp a) req s = Inr ((r, st), t)" "p' = Finished \<or> p' = Storing 1 r"
    for p' r st t
    using returnsD [OF serve_dns_reverse_ok [OF L assms(2)], of "is_tcp a" s] that
    by (auto intro: section_counts_forward)
  show ?thesis
    using assms(3) by (auto simp: missed_step_def Let_def go_bind quiet split: if_splits intro: rev)
qed

lemma forward_step_counts:
  assumes "env_ok E" "m_question req = [q]" "forward_step E a req st s = Inr (p, s')"
  shows "section_counts (Stale h) p (stats s) (stats s')"
proof -
  have L: "env_laws E" using assms(1) by (simp add: env_ok_def)
  obtain resp b where "serve_dns_forward E (is_tcp a) req st s = Inr ((resp, b), s')"
      "p = Finished \<or> p = Storing 2 resp"
    using assms(3) by (auto simp: forward_step_def go_bind split: if_splits)
  with returnsD [OF serve_dns_forward_ok [OF L assms(2)], of "is_tcp a" st s] show ?thesis
    by (auto intro: section_counts_forward)
qed

lemma serve_step_counts:
  assumes "env_ok E" "m_question req = [q]" "p \<noteq> Finished" "serve_step E a req p s = Inr (p', s')"
  shows "section_counts p p' (stats s) (stats s')"
proof -
  obtain bufsize d where lim: "client_limits (lib E) a req = (bufsize, d)" by fastforce
  note simps = serve_step_simps [OF assms(2) lim]
  show ?thesis
  proof (cases p rule: phase_cases)
    case arrived
    with assms(4) simps(1) show ?thesis
      by (cases d) (auto simp: counted_request_def Let_def section_counts_def)
  next
    case (looking W h)
    obtain h' i rs where h': "lookup_step E i a req q rs h s = Inr (h', s')" "p' = W h'"
      using serve_step_looking [OF assms(2) looking(2,3), of E a s] assms(4) looking(1) by (auto simp: go_bind)
    then have "stats s' = stats s" by (auto simp: lookup_step_def go_bind)
    with h' looking(1,2) section_counts_looking show ?thesis by metis
  next
    case (fresh r)
    with assms(4) simps(2,3) show ?thesis
      by (cases r) (auto simp: section_counts_def cached_reply_def Let_def case_prod_beta split: if_splits)
  next
    case missed
    with assms(4) simps(4) missed_step_counts [OF assms(1,2)] show ?thesis by auto
  next
    case (stale r)
    with assms(4) simps(5) forward_step_counts [OF assms(1,2)] show ?thesis by auto
  qed (use assms(3,4) simps in \<open>auto simp: section_counts_def\<close>)
qed

section \<open>Counting requests\<close>

definition at_stage :: "(phase \<Rightarrow> bool) \<Rightarrow> system \<Rightarrow> nat" where
  "at_stage Q w = card {i. Q (phases w i)}"

lemma card_stage_update:
  assumes "finite {i. Q (f i)}"
  shows "int (card {i. Q ((f(j := p)) i)}) = int (card {i. Q (f i)}) + of_bool (Q p) - of_bool (Q (f j))"
proof -
  let ?S = "{i. Q (f i)}"
  have "{i. Q ((f(j := p)) i)} = (if Q p then insert j ?S else ?S - {j})" by auto
  moreover have "j \<in> ?S \<Longrightarrow> 0 < card ?S" using assms by (auto simp: card_gt_0_iff)
  ultimately show ?thesis using assms
    by (cases "Q (f j)") (auto simp: card_insert_if card_Diff_singleton_if of_nat_diff Suc_le_eq)
qed

lemma stage_begun: "settled p \<Longrightarrow> begun p" "pending p \<Longrightarrow> begun p"
  by (cases p; simp)+

lemma finite_stage:
  assumes "finite {i. begun (f i)}" "\<And>p. Q p \<Longrightarrow> begun p"
  shows "finite {i. Q (f i)}"
  using assms(2) by (auto intro: finite_subset [OF _ assms(1)])

text \<open>
  The relations between the counters and the stages: every request that has begun is counted; hits
  and misses are at most the requests whose lookup is settled; and failures with stale answers, and
  forwarded queries, are at most the misses whose reply is not still to come.
\<close>

definition stages_counted :: "system \<Rightarrow> bool" where
  "stages_counted w \<longleftrightarrow>
     (let c = stats (srv w) in
      finite {i. begun (phases w i)} \<and>
      c RequestCount = int (at_stage begun w) \<and> 0 \<le> c CacheHit \<and> 0 \<le> c CacheMiss \<and>
      c CacheHit + c CacheMiss \<le> int (at_stage settled w) \<and>
      c RequestFail + c StaleCacheHit + int (at_stage pending w) \<le> c CacheMiss \<and>
      c ForwardCount + int (at_stage pending w) \<le> c CacheMiss \<and>
      c DnssecOkCount \<le> c RequestCount \<and>
      c RefusedCount = 0 \<and> c LookupCount = 0 \<and> c DnssecCacheMiss = 0)"

lemma stages_counted_boot: "stages_counted (boot C h)"
  by (simp add: stages_counted_def at_stage_def boot_def new_server_def)

lemma stages_counted_advance:
  assumes "stages_counted w" "section_counts (phases w i) p (stats (srv w)) (stats s)"
  shows "stages_counted (advance i p s w)"
proof -
  have fin: "finite {i. begun (phases w i)}" using assms(1) by (simp add: stages_counted_def Let_def)
  have "int (at_stage Q (advance i p s w)) = int (at_stage Q w) + of_bool (Q p) - of_bool (Q (phases w i))"
    if "\<And>p. Q p \<Longrightarrow> begun p" for Q
    using card_stage_update [where f = "phases w" and j = i and p = p, of Q] finite_stage [OF fin, of Q] that
    by (simp add: at_stage_def)
  from this [of begun] this [of settled] this [of pending] stage_begun
  have n: "int (at_stage begun (advance i p s w)) = int (at_stage begun w) + of_bool (begun p) - of_bool (begun (phases w i))"
    "int (at_stage settled (advance i p s w)) = int (at_stage settled w) + of_bool (settled p) - of_bool (settled (phases w i))"
    "int (at_stage pending (advance i p s w)) = int (at_stage pending w) + of_bool (pending p) - of_bool (pending (phases w i))"
    by auto
  have "{j. begun (((phases w)(i := p)) j)} \<subseteq> insert i {j. begun (phases w j)}" by auto
  then have "finite {j. begun (phases (advance i p s w) j)}"
    using fin by (simp add: finite_subset)
  with assms n show ?thesis
    unfolding stages_counted_def section_counts_def Let_def advance_simps by linarith
qed

lemma step_counted:
  assumes "requests_ok J" "system_step J l w w'"
  shows "(stages_counted w \<longrightarrow> stages_counted w') \<and>
    stats (srv w) RequestCount \<le> stats (srv w') RequestCount \<and>
    stats (srv w) CacheHit \<le> stats (srv w') CacheHit \<and> stats (srv w) CacheMiss \<le> stats (srv w') CacheMiss"
  using assms(2)
proof cases
  case (serve i E a req p s)
  have E: "env_ok (at_hosts E (live_hosts w))" using requests_okD [OF assms(1) serve(5)] by simp
  obtain q where q: "m_question req = [q]"
    using requests_okD [OF assms(1) serve(5)] by (auto simp: request_ok_def)
  have c: "section_counts (phases w i) p (stats (srv w)) (stats s)"
    by (rule serve_step_counts [OF E q serve(4,6)])
  with stages_counted_advance [OF _ c] serve(2) show ?thesis by (auto simp: section_counts_def)
qed (auto simp: stages_counted_def at_stage_def Let_def)

lemma runs_counted:
  "runs J ls w w' \<Longrightarrow> requests_ok J \<Longrightarrow>
   (stages_counted w \<longrightarrow> stages_counted w') \<and>
   stats (srv w) RequestCount \<le> stats (srv w') RequestCount \<and>
   stats (srv w) CacheHit \<le> stats (srv w') CacheHit \<and> stats (srv w) CacheMiss \<le> stats (srv w') CacheMiss"
proof (induction rule: runs.induct)
  case (run_more l w v ls u)
  from step_counted [OF run_more.prems run_more.hyps(1)] run_more.IH [OF run_more.prems] show ?case by auto
qed simp

lemma stages_counted_run: "requests_ok J \<Longrightarrow> runs J ls (boot C h) w \<Longrightarrow> stages_counted w"
  using runs_counted stages_counted_boot by blast

lemma settled_le_begun: "finite {i. begun (phases w i)} \<Longrightarrow> at_stage settled w \<le> at_stage begun w"
  unfolding at_stage_def by (rule card_mono) (auto dest: stage_begun)

text \<open>
  C17. The counters agree with each other and with what the requests are doing, in every state of
  every interleaving: the request counter is the number of requests that have begun; hits and
  misses together do not exceed the requests whose lookup in the cache is settled; failures and
  stale answers together, and forwarded queries, do not exceed the misses whose reply is not still
  to come; and three counters that are reported, of refusals, of lookups and of DNSSEC misses, are
  still zero, because nothing ever counts them.
\<close>

theorem counters_agree_in_every_run:
  assumes "requests_ok J" "runs J ls (boot C h) w"
  shows "let c = stats (srv w) in
    c RequestCount = int (at_stage begun w) \<and>
    0 \<le> c CacheHit \<and> 0 \<le> c CacheMiss \<and>
    c CacheHit + c CacheMiss \<le> int (at_stage settled w) \<and> at_stage settled w \<le> at_stage begun w \<and>
    c RequestFail + c StaleCacheHit + int (at_stage pending w) \<le> c CacheMiss \<and>
    c ForwardCount + int (at_stage pending w) \<le> c CacheMiss \<and>
    c DnssecOkCount \<le> c RequestCount \<and>
    c RefusedCount = 0 \<and> c LookupCount = 0 \<and> c DnssecCacheMiss = 0"
  using stages_counted_run [OF assms] settled_le_begun [of w] by (simp add: stages_counted_def Let_def)

theorem counters_agree_in_every_run_witness:
  "let w = advance 0 (Fresh Idle) (counted_request False (new_server sample_config)) sample_system;
       c = stats (srv w) in
    c RequestCount = int (at_stage begun w) \<and>
    0 \<le> c CacheHit \<and> 0 \<le> c CacheMiss \<and>
    c CacheHit + c CacheMiss \<le> int (at_stage settled w) \<and> at_stage settled w \<le> at_stage begun w \<and>
    c RequestFail + c StaleCacheHit + int (at_stage pending w) \<le> c CacheMiss \<and>
    c ForwardCount + int (at_stage pending w) \<le> c CacheMiss \<and>
    c DnssecOkCount \<le> c RequestCount \<and>
    c RefusedCount = 0 \<and> c LookupCount = 0 \<and> c DnssecCacheMiss = 0"
  using counters_agree_in_every_run [OF sample_requests_ok run_more [OF sample_arrival [of 0] run_none,
      unfolded sample_system_def]]
  unfolding sample_system_def Let_def .

end
