(* ===== verification/Live_Cache.thy ===== *)
theory Live_Cache
  imports Live_Server
begin

text \<open>
  What the cache of the running server holds: in every state of every run each message in it is
  the reply that some request with the same key was given, and what a lookup takes from it is such a
  reply, rewritten for the request that looks.
\<close>

section \<open>What a section does to the messages\<close>

text \<open>The answer that a lookup has prepared.\<close>

fun prepared :: "pc \<Rightarrow> msg option" where
  "prepared (Found k r v se) = Some r"
| "prepared (Counted k r se) = Some r"
| "prepared (Done r) = r"
| "prepared p = None"

fun held :: "phase \<Rightarrow> msg option" where
  "held (Fresh h) = prepared h"
| "held (Stale h) = prepared h"
| "held p = None"

text \<open>
  A section stores only the answer that the request has sent or sends with it, under the key of the
  request, and a lookup takes its answer from the cache.
\<close>

definition section_sources :: "string \<Rightarrow> 16 word \<Rightarrow> phase \<Rightarrow> server \<Rightarrow> phase \<Rightarrow> server \<Rightarrow> bool" where
  "section_sources key mid p s p' s' \<longleftrightarrow>
     (\<forall>k x. stored_msg (rcache s') k = Some x \<longrightarrow> stored_msg (rcache s) k = Some x \<or>
        k = key \<and> ((\<exists>n. p = Storing n x) \<or> written s' = written s @ [x])) \<and>
     (\<forall>n x. p' = Storing n x \<longrightarrow> written s' = written s @ [x]) \<and>
     (\<forall>r. held p' = Some r \<longrightarrow> held p = Some r \<or>
        (\<exists>m. stored_msg (rcache s) key = Some m \<and> r = hit_reply mid m))"

lemma section_sources_same:
  "rcache s' = rcache s \<Longrightarrow> held p' = None \<Longrightarrow>
   (\<And>n x. p' = Storing n x \<Longrightarrow> written s' = written s @ [x]) \<Longrightarrow> section_sources key mid p s p' s'"
  by (simp add: section_sources_def)

lemma hit_step_sources:
  assumes "hit_step clk q d t mid ks rs h c = Inr (h', c')"
  shows "(\<forall>k x. stored_msg c' k = Some x \<longrightarrow> stored_msg c k = Some x) \<and>
    (\<forall>r. prepared h' = Some r \<longrightarrow> prepared h = Some r \<or>
       (\<exists>m. stored_msg c (cache_key q d t) = Some m \<and> r = hit_reply mid m))"
proof (cases h)
  case Idle
  obtain m1 exp se found where search: "search (cache_key q d t) c = (m1, exp, se, found)"
    by (metis prod_cases4)
  then have "found \<Longrightarrow> m1 = stored_msg c (cache_key q d t)"
    by (auto simp: search_def stored_msg_def split: if_splits option.splits)
  with Idle assms search show ?thesis by (auto simp: Let_def split: if_splits option.splits)
next
  case (Found k r v se)
  with assms show ?thesis by (auto simp: go_bind count_hit_stored)
qed (use assms in \<open>auto dest: remove_stored split: if_splits\<close>)

lemma lookup_step_sources:
  assumes "lookup_step E i a req q rs h s = Inr (h', s')" "reply_law (lib E)"
    and "client_limits (lib E) a req = (bufsize, d)" "W = Fresh \<or> W = Stale"
  shows "section_sources (cache_key q d (is_tcp a)) (m_id req) (W h) s (W h') s'"
proof -
  obtain c where "hit_step (clock E i) q d (is_tcp a) (m_id req) (stale_enabled E) rs h (rcache s) = Inr (h', c)"
      "s' = s\<lparr>rcache := c\<rparr>"
    using assms(1) base_reply_simps(1) [OF assms(2), of req] by (auto simp: lookup_step_def assms(3) go_bind)
  with hit_step_sources [OF this(1)] assms(4) show ?thesis by (auto simp: section_sources_def)
qed

lemma insert_answer_sources:
  "env_ok E \<Longrightarrow> stored_msg (insert_message clk (visit E i) key m c) k = Some x \<Longrightarrow>
   stored_msg c k = Some x \<or> key = k \<and> m = x"
  by (rule insert_stored) (auto simp: env_ok_def)

lemma local_reply_sources:
  assumes "env_ok E"
  shows "section_sources (cache_key q d tcp) mid p s Finished (local_reply E tcp b d req q m s)"
  by (auto simp: section_sources_def local_reply_def Let_def case_prod_beta
      dest!: insert_answer_sources [OF assms] split: if_splits)

lemma missed_step_sources:
  assumes "env_ok E" "m_question req = [q]" "missed_step E a req q s = Inr (p, s')"
  shows "section_sources key mid Missed s p s'"
proof -
  have L: "env_laws E" using assms(1) by (simp add: env_ok_def)
  have rev: "section_sources key mid Missed s p' t"
    if "serve_dns_reverse E (is_tcp a) req s = Inr ((r, st), t)" "p' = Finished \<or> p' = Storing 1 r"
    for p' r st t
    using returnsD [OF serve_dns_reverse_ok [OF L assms(2)], of "is_tcp a" s] that
    by (auto intro!: section_sources_same)
  have quiet: "section_sources key mid Missed t (Answering m) t" "section_sources key mid Missed t (Stale Idle) t"
    for m t by (simp_all add: section_sources_def)
  show ?thesis
    using assms(3) by (auto simp: missed_step_def Let_def go_bind quiet split: if_splits intro: rev)
qed

lemma forward_step_sources:
  assumes "env_ok E" "m_question req = [q]" "forward_step E a req st s = Inr (p, s')"
  shows "section_sources key mid (Stale h) s p s'"
proof -
  have L: "env_laws E" using assms(1) by (simp add: env_ok_def)
  obtain resp b where "serve_dns_forward E (is_tcp a) req st s = Inr ((resp, b), s')"
      "p = Finished \<or> p = Storing 2 resp"
    using assms(3) by (auto simp: forward_step_def go_bind split: if_splits)
  with returnsD [OF serve_dns_forward_ok [OF L assms(2)], of "is_tcp a" st s] show ?thesis
    by (auto intro!: section_sources_same)
qed

lemma serve_step_sources:
  assumes "env_ok E" "m_question req = [q]" "client_limits (lib E) a req = (bufsize, d)"
    and "p \<noteq> Finished" "serve_step E a req p s = Inr (p', s')"
  shows "section_sources (cache_key q d (is_tcp a)) (m_id req) p s p' s'"
proof -
  note simps = serve_step_simps [OF assms(2,3)]
  have L: "reply_law (lib E)" using env_lawsD(1) assms(1) by (simp add: env_ok_def)
  show ?thesis
  proof (cases p rule: phase_cases)
    case (looking W h)
    obtain h' i rs where "lookup_step E i a req q rs h s = Inr (h', s')" "p' = W h'"
      using serve_step_looking [OF assms(2) looking(2,3), of E a s] assms(5) looking(1) by (auto simp: go_bind)
    with lookup_step_sources [OF this(1) L assms(3) looking(2)] looking(1) show ?thesis by simp
  next
    case (fresh r)
    with assms(5) simps(2,3) show ?thesis
      by (cases r) (auto simp: cached_reply_def Let_def case_prod_beta intro!: section_sources_same)
  next
    case missed
    with assms(5) simps(4) missed_step_sources [OF assms(1,2)] show ?thesis by auto
  next
    case (answering m)
    with assms(5) simps(8) local_reply_sources [OF assms(1)] show ?thesis by auto
  next
    case (stale r)
    with assms(5) simps(5) forward_step_sources [OF assms(1,2)] show ?thesis by auto
  next
    case (storing i m)
    with assms(5) simps(6) show ?thesis
      by (auto simp: section_sources_def dest!: insert_answer_sources [OF assms(1)])
  qed (use assms(4,5) simps(1) in \<open>auto simp: section_sources_def\<close>)
qed

section \<open>In every run\<close>

definition request_key :: "requests \<Rightarrow> nat \<Rightarrow> string" where
  "request_key J i =
     (case J i of (E, a, req) \<Rightarrow>
        cache_key (hd (m_question req)) (snd (client_limits (lib E) a req)) (is_tcp a))"

text \<open>\<open>m\<close> is the reply that some request with the key \<open>k\<close> was given.\<close>

definition replied :: "requests \<Rightarrow> system \<Rightarrow> string \<Rightarrow> msg \<Rightarrow> bool" where
  "replied J w k m \<longleftrightarrow> (\<exists>i. request_key J i = k \<and> replies w i = [m])"

definition sources_ok :: "requests \<Rightarrow> system \<Rightarrow> bool" where
  "sources_ok J w \<longleftrightarrow>
     (\<forall>k m. stored_msg (rcache (srv w)) k = Some m \<longrightarrow> replied J w k m) \<and>
     (\<forall>i n m. phases w i = Storing n m \<longrightarrow> replies w i = [m]) \<and>
     (\<forall>i r. held (phases w i) = Some r \<longrightarrow>
        (\<exists>m. replied J w (request_key J i) m \<and> r = hit_reply (m_id (request_of J i)) m))"

lemma sources_ok_boot: "sources_ok J (boot C h)"
  by (simp add: sources_ok_def boot_def new_server_def stored_msg_def new_cache_def)

lemma sources_ok_serve:
  assumes J: "requests_ok J" and w: "system_ok J cap w" "sources_ok J w"
    and step: "phases w i \<noteq> Finished" "J i = (E, a, req)"
      "serve_step (at_hosts E (live_hosts w)) a req (phases w i) (srv w) = Inr (p, s)"
  shows "sources_ok J (advance i p s w)"
proof -
  let ?w = "advance i p s w"
  note sec = serve_section [OF J w(1) step]
  have E: "env_ok (at_hosts E (live_hosts w))" using requests_okD [OF J step(2)] by simp
  obtain q where q: "m_question req = [q]" using requests_okD [OF J step(2)] by (auto simp: request_ok_def)
  obtain b d where lim: "client_limits (lib E) a req = (b, d)" by fastforce
  have key: "request_key J i = cache_key q d (is_tcp a)" "m_id (request_of J i) = m_id req"
    using step(2) q lim by (simp_all add: request_key_def request_of_def)
  have src: "section_sources (request_key J i) (m_id req) (phases w i) (srv w) p s"
    using serve_step_sources [OF E q _ step(1,3), of b d] lim key by simp
  obtain new where new: "written s = written (srv w) @ new"
    using section_appends [OF sec(1)] by blast
  then have rep: "replies ?w j = (if j = i then replies w i @ new else replies w j)" for j
    by (simp add: advance_def)
  have one: "length (replies ?w j) \<le> 1" for j
    using sec(2) stage_replies by (auto simp: system_ok_def)
  have keep: "replies ?w j = [m]" if "replies w j = [m]" for j m
    using that one [of j] rep [of j] by (auto split: if_splits)
  then have old: "replied J ?w k m" if "replied J w k m" for k m
    using that unfolding replied_def by blast
  have sent: "replies ?w i = [x]" if "written s = written (srv w) @ [x]" for x
    using that new one [of i] rep [of i] by auto
  have "replied J ?w k m" if st: "stored_msg (rcache s) k = Some m" for k m
  proof -
    from src st consider "stored_msg (rcache (srv w)) k = Some m"
      | n where "k = request_key J i" "phases w i = Storing n m"
      | "k = request_key J i" "written s = written (srv w) @ [m]"
      unfolding section_sources_def by blast
    then show ?thesis
    proof cases
      case 1
      with w(2) old show ?thesis by (auto simp: sources_ok_def)
    next
      case 2
      with w(2) keep show ?thesis by (auto simp: sources_ok_def replied_def)
    next
      case 3
      with sent show ?thesis by (auto simp: replied_def)
    qed
  qed
  moreover have "replies ?w j = [m]" if ph: "phases ?w j = Storing n m" for j n m
  proof (cases "j = i")
    case True
    with ph src sent show ?thesis by (auto simp: section_sources_def)
  next
    case False
    with ph w(2) keep show ?thesis by (auto simp: sources_ok_def)
  qed
  moreover have "\<exists>m. replied J ?w (request_key J j) m \<and> r = hit_reply (m_id (request_of J j)) m"
    if h: "held (phases ?w j) = Some r" for j r
  proof (cases "j = i")
    case True
    with h src key(2) have "held (phases w i) = Some r \<or>
        (\<exists>m. stored_msg (rcache (srv w)) (request_key J i) = Some m \<and> r = hit_reply (m_id (request_of J i)) m)"
      by (auto simp: section_sources_def)
    with True w(2) old show ?thesis unfolding sources_ok_def by metis
  next
    case False
    with h w(2) old show ?thesis unfolding sources_ok_def advance_simps by (metis fun_upd_other)
  qed
  ultimately show ?thesis by (simp add: sources_ok_def)
qed

lemma sources_ok_runs:
  "runs J ls w w' \<Longrightarrow> requests_ok J \<Longrightarrow> system_ok J cap w \<Longrightarrow> sources_ok J w \<Longrightarrow> sources_ok J w'"
proof (induction rule: runs.induct)
  case (run_more l w v ls u)
  have "sources_ok J v"
    using run_more.hyps(1)
  proof cases
    case (serve i E a req p s)
    with sources_ok_serve [OF run_more.prems] show ?thesis by blast
  qed (use run_more.prems(3) in \<open>auto simp: sources_ok_def replied_def\<close>)
  with run_more.IH run_more.prems(1) system_ok_step [OF run_more.prems(1,2) run_more.hyps(1)] show ?case by blast
qed simp

text \<open>
  C5. Where answers come from, in every interleaving: every message in the cache is the reply that
  some request of the run with the same key was given, byte for byte; and the answer that a lookup
  holds is such a reply to a request with its own key, of which only the identifier, the
  compression and the truncation flag were rewritten.
\<close>

theorem cache_holds_replies:
  assumes "requests_ok J" "hosts_ok (hf_hosts h)" "runs J ls (boot C h) w"
  shows "(\<forall>k m. stored_msg (rcache (srv w)) k = Some m \<longrightarrow> replied J w k m) \<and>
    (\<forall>i r. held (phases w i) = Some r \<longrightarrow>
       (\<exists>m. replied J w (request_key J i) m \<and> r = hit_reply (m_id (request_of J i)) m))"
  using sources_ok_runs [OF assms(3,1) system_ok_boot [OF assms(2)] sources_ok_boot]
  by (simp add: sources_ok_def)

text \<open>A request for the version of the server, whose answer stays in the cache.\<close>

definition version_requests :: requests where
  "version_requests i = (sample_env sample_config silent, UDPAddr, chaos_req 3)"

lemma version_requests_ok: "requests_ok version_requests"
  by (simp add: requests_ok_def version_requests_def request_ok_def question_ok_def chaos_req_def chaos_q_def
      has_suffix_drop type_in_use_def)

lemma version_request_run:
  "\<exists>ls w m. runs version_requests ls (boot sample_config sample_hostsfile) w \<and>
    stored_msg (rcache (srv w)) (request_key version_requests 0) = Some m"
proof -
  let ?E = "at_hosts (sample_env sample_config silent) sample_hostsfile"
  let ?w = "boot sample_config sample_hostsfile"
  have q: "m_question (chaos_req 3) = [chaos_q]" by (simp add: chaos_req_def chaos_q_def)
  have lim: "client_limits (lib ?E) UDPAddr (chaos_req 3) = (512, False)"
    by (simp add: chaos_req_def new_msg_def)
  obtain s where s: "serve_dns ?E UDPAddr (chaos_req 3) (new_server sample_config) = Inr s"
    "rcache s = insert_message (clock ?E 1) (visit ?E 1) (cache_key chaos_q False False)
       (version_reply ?E (chaos_req 3) chaos_q) (rcache (new_server sample_config))"
    using serve_version [OF q, of ?E UDPAddr 512 False "new_server sample_config"] lim
    by (auto simp: chaos_q_def to_lower_def new_server_def sample_config_def version_reply_def sample_msg_len
        chaos_req_def new_msg_def)
  have key: "request_key version_requests 0 = cache_key chaos_q False False"
    using q lim by (simp add: request_key_def version_requests_def)
  have "stored_msg (rcache s) (cache_key chaos_q False False) = Some (version_reply ?E (chaos_req 3) chaos_q)"
    unfolding s(2) stored_msg_def
    by (subst insert_new_room) (simp_all add: new_server_def sample_config_def new_elem_def Let_def)
  moreover have "\<exists>ls. runs version_requests ls ?w (advance 0 Finished s ?w)"
    using request_in_isolation [OF version_requests_ok system_ok_boot, of sample_hostsfile sample_config 0
        "sample_env sample_config silent" UDPAddr "chaos_req 3" s] s(1)
    by (auto simp: boot_def version_requests_def)
  moreover have "srv (advance 0 Finished s ?w) = s" by simp
  ultimately show ?thesis unfolding key by metis
qed

theorem cache_holds_replies_witness:
  "\<exists>ls w m. runs version_requests ls (boot sample_config sample_hostsfile) w \<and>
    stored_msg (rcache (srv w)) (request_key version_requests 0) = Some m \<and>
    replied version_requests w (request_key version_requests 0) m"
  using version_request_run cache_holds_replies [OF version_requests_ok sample_system_simps(6)] by blast

end
