(* ===== verification/Resolvconf.thy ===== *)
theory Resolvconf
  imports Go_Strings
begin

text \<open>
  Registration in \<open>/etc/resolv.conf\<close> (\<open>resolvconf/resolvconf.go\<close>). The text of the file is
  transformed line by line, and the result is written over the old text in place; both levels are
  modelled, with the file operations that may fail as a parameter.
\<close>

section \<open>The text of the file\<close>

definition comment_add :: string where
  "comment_add = ''# added by go-dnsmasq''"

definition comment_out :: string where
  "comment_out = ''# disabled by go-dnsmasq #''"

definition newline :: char where
  "newline = CHR 0x0A"

text \<open>
  The regular expression matches a line that ends in \<open>comment_add\<close>, with its newline, or without
  one at the end of the text. Each match is deleted.
\<close>

definition added_line :: "string \<Rightarrow> bool" where
  "added_line line \<longleftrightarrow> has_suffix (trim_suffix line [newline]) comment_add"

definition remove_added :: "string \<Rightarrow> string" where
  "remove_added orig = concat (filter (\<lambda>l. \<not> added_line l) (split_after newline orig))"

definition nameserver_line :: "string \<Rightarrow> bool" where
  "nameserver_line line \<longleftrightarrow> has_prefix (to_lower (trim_space line)) ''nameserver''"

definition rewrite_line :: "string \<Rightarrow> string \<Rightarrow> string" where
  "rewrite_line ins line =
     (if ins = [] then
        (if contains_str line comment_out
         then trim_left (replace_all comment_out [] line) '' '' else line)
      else if nameserver_line line then comment_out @ '' '' @ line
      else line)"

definition store_entry :: "string \<Rightarrow> string" where
  "store_entry address = ''nameserver '' @ address @ '' '' @ comment_add @ [newline]"

section \<open>The file\<close>

text \<open>
  Which operations succeed. \<open>io_write i\<close> is \<open>None\<close> when the \<open>i\<close>-th write succeeds and \<open>Some k\<close> when
  it fails after \<open>k\<close> bytes. A file that does not exist is created empty by the open.
\<close>

record io =
  io_open :: bool
  io_read :: bool
  io_seek :: bool
  io_write :: "nat \<Rightarrow> nat option"
  io_tell :: bool
  io_truncate :: bool

record file_state =
  text_of :: string
  offset :: nat

definition overwrite :: "string \<Rightarrow> file_state \<Rightarrow> file_state" where
  "overwrite s f =
     \<lparr>text_of = take (offset f) (text_of f) @ s @ drop (offset f + length s) (text_of f),
      offset = offset f + length s\<rparr>"

text \<open>The \<open>i\<close>-th write and those after it; the flag tells whether one failed.\<close>

fun write_strings :: "io \<Rightarrow> nat \<Rightarrow> string list \<Rightarrow> file_state \<Rightarrow> file_state \<times> bool" where
  "write_strings d i [] f = (f, False)"
| "write_strings d i (s # ss) f =
     (case io_write d i of
        None \<Rightarrow> write_strings d (i + 1) ss (overwrite s f)
      | Some k \<Rightarrow> (overwrite (take k s) f, True))"

text \<open>\<open>updateResolvConf\<close>: the text the file has afterwards, and whether an error is returned.\<close>

definition update_resolv_conf :: "io \<Rightarrow> string \<Rightarrow> string \<Rightarrow> string \<times> bool" where
  "update_resolv_conf d ins text =
     (if \<not> io_open d \<or> \<not> io_read d then (text, True)
      else
        (let orig = remove_added text in
         if \<not> io_seek d then (text, True)
         else
           (let (f, err) = write_strings d 0
                  (ins # map (rewrite_line ins) (split_after newline orig))
                  \<lparr>text_of = text, offset = 0\<rparr>
            in if err \<or> \<not> io_tell d \<or> \<not> io_truncate d then (text_of f, True)
               else (take (offset f) (text_of f), False))))"

definition store_address :: "io \<Rightarrow> string \<Rightarrow> string \<Rightarrow> string \<times> bool" where
  "store_address d address text = update_resolv_conf d (store_entry address) text"

text \<open>\<open>Clean\<close> logs an error and goes on.\<close>

definition clean :: "io \<Rightarrow> string \<Rightarrow> string" where
  "clean d text = fst (update_resolv_conf d [] text)"

text \<open>Operations that all succeed, and a concrete text.\<close>

definition all_succeed :: io where
  "all_succeed = \<lparr>io_open = True, io_read = True, io_seek = True, io_write = (\<lambda>_. None),
                  io_tell = True, io_truncate = True\<rparr>"

definition sample_text :: string where
  "sample_text = ''search b.c'' @ [newline] @ ''nameserver 10.0.0.1'' @ [newline]"

section \<open>Writing in place writes the whole text\<close>

definition io_ok :: "io \<Rightarrow> bool" where
  "io_ok d \<longleftrightarrow> io_open d \<and> io_read d \<and> io_seek d \<and> (\<forall>i. io_write d i = None) \<and> io_tell d \<and> io_truncate d"

definition rewritten :: "string \<Rightarrow> string \<Rightarrow> string" where
  "rewritten ins text =
     ins @ concat (map (rewrite_line ins) (split_after newline (remove_added text)))"

text \<open>\<open>written_over pre orig\<close>: \<open>pre\<close> written over the beginning of \<open>orig\<close>, which keeps its end.\<close>

definition written_over :: "string \<Rightarrow> string \<Rightarrow> string" where
  "written_over pre orig = pre @ drop (length pre) orig"

lemma overwrite_written_over:
  "overwrite s \<lparr>text_of = written_over pre orig, offset = length pre\<rparr>
    = \<lparr>text_of = written_over (pre @ s) orig, offset = length (pre @ s)\<rparr>"
  by (simp add: overwrite_def written_over_def add.commute)

lemma write_strings_written:
  "\<exists>n \<le> length (concat ss). \<exists>err.
     write_strings d i ss \<lparr>text_of = written_over pre orig, offset = length pre\<rparr>
       = (\<lparr>text_of = written_over (pre @ take n (concat ss)) orig,
           offset = length (pre @ take n (concat ss))\<rparr>, err) \<and>
     (if err then \<exists>i. io_write d i \<noteq> None else n = length (concat ss))"
proof (induction ss arbitrary: i pre)
  case (Cons s ss)
  show ?case
  proof (cases "io_write d i")
    case None
    from Cons.IH [of "i + 1" "pre @ s"] obtain n err where n: "n \<le> length (concat ss)"
      "write_strings d (i + 1) ss \<lparr>text_of = written_over (pre @ s) orig, offset = length (pre @ s)\<rparr>
       = (\<lparr>text_of = written_over ((pre @ s) @ take n (concat ss)) orig,
           offset = length ((pre @ s) @ take n (concat ss))\<rparr>, err)"
      "if err then \<exists>i. io_write d i \<noteq> None else n = length (concat ss)" by blast
    then show ?thesis using None
      by (intro exI [of _ "length s + n"] conjI exI [of _ err])
        (simp_all add: overwrite_written_over split: if_splits)
  next
    case (Some k)
    then show ?thesis
      by (intro exI [of _ "min k (length s)"] conjI exI [of _ True])
        (auto simp: overwrite_written_over min_def)
  qed
qed auto

lemma update_written:
  obtains n where "update_resolv_conf d ins text = (written_over (take n (rewritten ins text)) text, True)"
      "\<not> io_ok d"
    | "update_resolv_conf d ins text = (rewritten ins text, False)"
proof -
  let ?ss = "ins # map (rewrite_line ins) (split_after newline (remove_added text))"
  have rw: "concat ?ss = rewritten ins text" by (simp add: rewritten_def)
  have start: "\<lparr>text_of = text, offset = 0\<rparr> = \<lparr>text_of = written_over [] text, offset = length ([] :: string)\<rparr>"
    by (simp add: written_over_def)
  obtain n err where w: "write_strings d 0 ?ss \<lparr>text_of = text, offset = 0\<rparr>
      = (\<lparr>text_of = written_over (take n (rewritten ins text)) text,
          offset = length (take n (rewritten ins text))\<rparr>, err)"
    "if err then \<exists>i. io_write d i \<noteq> None else n = length (rewritten ins text)"
    using write_strings_written [of ?ss d 0 "[]" "text"] unfolding rw start by auto
  have none: "text = written_over (take 0 (rewritten ins text)) text" by (simp add: written_over_def)
  show thesis
  proof (cases "io_open d \<and> io_read d \<and> io_seek d \<and> \<not> err \<and> io_tell d \<and> io_truncate d")
    case True
    with w have "update_resolv_conf d ins text = (rewritten ins text, False)"
      by (simp add: update_resolv_conf_def Let_def written_over_def)
    then show thesis by (rule that(2))
  next
    case False
    then have io: "\<not> io_ok d" using w(2) by (auto simp: io_ok_def)
    show thesis
    proof (cases "io_open d \<and> io_read d \<and> io_seek d")
      case True
      with False w(1) have "update_resolv_conf d ins text
          = (written_over (take n (rewritten ins text)) text, True)"
        by (auto simp: update_resolv_conf_def Let_def)
      then show thesis using io by (rule that(1))
    next
      case False
      then have "update_resolv_conf d ins text = (written_over (take 0 (rewritten ins text)) text, True)"
        using none by (auto simp: update_resolv_conf_def Let_def)
      then show thesis using io by (rule that(1))
    qed
  qed
qed

lemma update_rewritten: "io_ok d \<Longrightarrow> update_resolv_conf d ins text = (rewritten ins text, False)"
  by (rule update_written [of d ins "text"]) auto

text \<open>
  C38. The update writes line after line over the old text and truncates the file where it stops.
  Whatever file operations fail, after how many bytes: when no error is returned the file holds
  exactly the transformed text, and nothing of the old text is left behind it; when an error is
  returned it holds a beginning of the transformed text written over the old text, and some
  operation did fail.
\<close>

theorem update_writes_rewritten:
  "case update_resolv_conf d ins text of (text', failed) \<Rightarrow>
     if failed then \<not> io_ok d \<and> (\<exists>n. text' = written_over (take n (rewritten ins text)) text)
     else text' = rewritten ins text"
  by (rule update_written [of d ins "text"]) auto

text \<open>
  The update is not atomic: when the second write fails, nothing is left of a text that is shorter
  than the entry that was written over it.
\<close>

lemma interrupted_update_loses_text:
  "update_resolv_conf (all_succeed\<lparr>io_write := \<lambda>i. if i = 1 then Some 0 else None\<rparr>)
      (store_entry ''127.0.0.1'') sample_text = (store_entry ''127.0.0.1'', True)"
  by code_simp

lemma all_succeed_ok [simp]: "io_ok all_succeed"
  by (simp add: io_ok_def all_succeed_def)

section \<open>Registering and cleaning up\<close>

lemma newline_facts [simp]: "newline \<notin> set comment_add" "newline \<notin> set comment_out"
  "newline \<noteq> CHR '' ''"
  by (simp_all add: newline_def comment_add_def comment_out_def)

lemma rewrite_store:
  "ins \<noteq> [] \<Longrightarrow> rewrite_line ins l = (if nameserver_line l then comment_out @ '' '' @ l else l)"
  by (simp add: rewrite_line_def)

lemma store_entry_not_Nil [simp]: "store_entry a \<noteq> []"
  by (simp add: store_entry_def)

lemma store_pieces:
  assumes "newline \<notin> set address"
  shows "pieces newline (store_entry address # map (rewrite_line (store_entry address))
           (split_after newline s))"
proof -
  have "newline \<notin> set (''nameserver '' @ address @ '' '' @ comment_add)"
    using assms by (simp add: newline_def comment_add_def)
  then have "\<exists>v. store_entry address = v @ [newline] \<and> newline \<notin> set v"
    unfolding store_entry_def by (metis append_assoc)
  moreover have "\<exists>u. newline \<notin> set u \<and> rewrite_line (store_entry address) w = u @ w" for w
    by (cases "nameserver_line w")
      (auto simp: rewrite_store intro: exI [of _ "comment_out @ '' ''"] exI [of _ "[]"])
  then have "pieces newline (map (rewrite_line (store_entry address)) (split_after newline s))"
    by (intro pieces_map split_after_pieces) blast
  ultimately show ?thesis by (subst pieces_Cons) auto
qed

lemma stored_lines:
  assumes "newline \<notin> set address"
  shows "split_after newline (rewritten (store_entry address) text)
    = store_entry address # map (rewrite_line (store_entry address)) (split_after newline (remove_added text))"
  using split_after_concat [OF store_pieces [OF assms]] by (simp add: rewritten_def)

lemma not_nameserver_commented: "\<not> nameserver_line (comment_out @ s)"
proof -
  obtain u where "trim_space (comment_out @ s) = CHR ''#'' # u"
    using trim_space_hd [of "comment_out @ s"] by (auto simp: comment_out_def space_runes_def)
  then show ?thesis by (simp add: nameserver_line_def has_prefix_def to_lower_def)
qed

lemma nameserver_entry: "nameserver_line (store_entry address)"
proof -
  let ?w = "''nameserver '' @ address @ '' '' @ comment_add"
  have "\<forall>r \<in> set space_runes. \<not> prefix r (store_entry address)"
    by (simp add: store_entry_def space_runes_def)
  then have "trim_runes space_runes (store_entry address) = store_entry address"
    by (intro trim_runes_keep) auto
  moreover have "trim_runes (map rev space_runes) (rev (store_entry address)) = rev ?w"
    by (simp add: store_entry_def comment_add_def newline_def space_runes_def trim_runes.simps)
  ultimately have "trim_space (store_entry address) = ?w" by (simp add: trim_space_def)
  then show ?thesis by (simp add: nameserver_line_def has_prefix_def to_lower_def)
qed

text \<open>
  After the address has been stored, the file has exactly one active name server line, the one
  that was stored: whatever name servers it had before, in any capitalisation and indentation, are
  commented out.
\<close>

lemma stored_nameservers:
  assumes "io_ok d" "newline \<notin> set address"
  shows "filter nameserver_line (split_after newline (fst (store_address d address text)))
           = [store_entry address]"
proof -
  have "\<not> nameserver_line (rewrite_line (store_entry address) l)" for l
    using not_nameserver_commented [of "'' '' @ l"] by (simp add: rewrite_store)
  then show ?thesis
    by (simp add: store_address_def update_rewritten [OF assms(1)] stored_lines [OF assms(2)]
        nameserver_entry filter_empty_conv)
qed

text \<open>
  A text the program has not touched: no line is marked as added or disabled, and its name server
  lines do not start with a space.
\<close>

definition untouched :: "string \<Rightarrow> bool" where
  "untouched text \<longleftrightarrow>
     (\<forall>l \<in> set (split_after newline text).
        \<not> added_line l \<and> \<not> contains_str l comment_out \<and>
        (nameserver_line l \<longrightarrow> hd l \<noteq> CHR '' ''))"

text \<open>
  Without the second condition the marks alone are absent; what clean-up then does to the text is to
  strip the leading spaces of its name server lines.
\<close>

definition unmarked :: "string \<Rightarrow> bool" where
  "unmarked text \<longleftrightarrow>
     (\<forall>l \<in> set (split_after newline text). \<not> added_line l \<and> \<not> contains_str l comment_out)"

definition unindented :: "string \<Rightarrow> string" where
  "unindented text =
     concat (map (\<lambda>l. if nameserver_line l then trim_left l '' '' else l) (split_after newline text))"

lemma untouched_unmarked: "untouched text \<Longrightarrow> unmarked text"
  by (simp add: untouched_def unmarked_def)

lemma unindented_untouched:
  assumes "untouched text"
  shows "unindented text = text"
proof -
  have "trim_left l '' '' = l" if "l \<in> set (split_after newline text)" "nameserver_line l" for l
    using assms that by (cases l) (auto simp: untouched_def trim_left_def)
  then have "map (\<lambda>l. if nameserver_line l then trim_left l '' '' else l) (split_after newline text) =
      split_after newline text"
    by (intro map_idI) simp
  then show ?thesis by (simp add: unindented_def concat_split_after)
qed

lemma remove_added_unmarked: "unmarked text \<Longrightarrow> remove_added text = text"
  by (simp add: unmarked_def remove_added_def concat_split_after)

lemma clean_unmarked:
  assumes "io_ok d" "unmarked text"
  shows "clean d text = text"
proof -
  have "map (rewrite_line []) (split_after newline text) = split_after newline text"
    using assms(2) by (auto simp: unmarked_def rewrite_line_def intro: map_idI)
  then show ?thesis
    by (simp add: clean_def update_rewritten [OF assms(1)] rewritten_def remove_added_unmarked [OF assms(2)]
        concat_split_after)
qed

lemma nameserver_not_Nil: "nameserver_line l \<Longrightarrow> l \<noteq> []"
  by (auto simp: nameserver_line_def has_prefix_def to_lower_def)

text \<open>The word \<open>nameserver\<close> has a letter that the mark of added lines does not have.\<close>

lemma nameserver_letter:
  assumes "nameserver_line l"
  shows "CHR ''v'' \<in> set (trim_suffix l [newline]) \<or> CHR ''V'' \<in> set (trim_suffix l [newline])"
proof -
  have "CHR ''v'' \<in> set (to_lower (trim_space l))"
    using assms by (auto simp: nameserver_line_def has_prefix_iff)
  then obtain c where c: "c \<in> set (trim_space l)" "lower_char c = CHR ''v''"
    by (auto simp: to_lower_def)
  have upper: "c = CHR ''V''" if "of_char c = (86::nat)"
  proof -
    have "of_char (CHR ''V'') = (86::nat)" by simp
    with that show ?thesis by (metis char_of_char)
  qed
  have v: "c = CHR ''v'' \<or> c = CHR ''V''"
    using of_lower_char [of c] c(2) upper
    by (cases "is_upper c") (auto simp: lower_char_not_upper is_upper_def)
  have "c \<in> set l" using c(1) trim_space_decomp [of l] by (metis UnCI set_append)
  moreover have "c \<noteq> newline" using v by (auto simp: newline_def)
  ultimately have "c \<in> set (trim_suffix l [newline])"
    by (cases "has_suffix l [newline]") (auto simp: trim_suffix_def has_suffix_iff)
  with v show ?thesis by auto
qed

lemma added_line_commented:
  assumes "nameserver_line l" "\<not> added_line l"
  shows "\<not> added_line (u @ l)"
proof
  assume "added_line (u @ l)"
  moreover have "l \<noteq> []" using assms(1) by (rule nameserver_not_Nil)
  ultimately have "has_suffix (u @ trim_suffix l [newline]) comment_add"
    by (cases l rule: rev_cases) (auto simp: added_line_def trim_suffix_def has_suffix_iff)
  then have "suffix comment_add (u @ trim_suffix l [newline])" by (simp add: has_suffix_def)
  then have "suffix comment_add (trim_suffix l [newline]) \<or> suffix (trim_suffix l [newline]) comment_add"
    by (metis suffix_same_cases suffixI)
  moreover have "\<not> suffix comment_add (trim_suffix l [newline])"
    using assms(2) by (simp add: added_line_def has_suffix_def)
  ultimately have "set (trim_suffix l [newline]) \<subseteq> set comment_add"
    by (auto dest: set_mono_suffix)
  with nameserver_letter [OF assms(1)] show False by (auto simp: comment_add_def)
qed

lemma uncomment_line:
  assumes "\<not> contains_str l comment_out"
  shows "rewrite_line [] (comment_out @ '' '' @ l) = trim_left l '' ''"
proof -
  have "contains_str (comment_out @ '' '' @ l) comment_out"
    by (auto simp: contains_str_sublist)
  moreover have "replace_all comment_out [] (comment_out @ '' '' @ l) = '' '' @ l"
  proof -
    have "\<not> sublist comment_out ('' '' @ l)"
      using assms by (simp add: contains_str_sublist sublist_Cons_right) (simp add: comment_out_def)
    then have "replace_all comment_out [] ('' '' @ l) = '' '' @ l" by (rule replace_all_absent)
    moreover have "comment_out \<noteq> []" by (simp add: comment_out_def)
    ultimately show ?thesis using replace_all_prefix [of comment_out "[]" "'' '' @ l"] by simp
  qed
  moreover have "trim_left ('' '' @ l) '' '' = trim_left l '' ''"
    by (simp add: trim_left_def)
  ultimately show ?thesis by (simp add: rewrite_line_def)
qed

lemma clean_stored_unmarked:
  assumes "io_ok d" "unmarked text" "newline \<notin> set address"
  shows "clean d (fst (store_address d address text)) = unindented text"
proof -
  let ?e = "store_entry address" and ?ls = "split_after newline text"
  have stored: "fst (store_address d address text) = rewritten ?e text"
    by (simp add: store_address_def update_rewritten [OF assms(1)])
  have lines: "split_after newline (rewritten ?e text) = ?e # map (rewrite_line ?e) ?ls"
    by (simp add: stored_lines [OF assms(3)] remove_added_unmarked [OF assms(2)])
  have line: "\<not> added_line l" "\<not> contains_str l comment_out" if "l \<in> set ?ls" for l
    using assms(2) that by (auto simp: unmarked_def)
  have entry: "added_line ?e"
  proof -
    have "?e = (''nameserver '' @ address @ '' '' @ comment_add) @ [newline]"
      by (simp add: store_entry_def)
    then have "trim_suffix ?e [newline] = ''nameserver '' @ address @ '' '' @ comment_add"
      by (metis trim_suffix_append)
    moreover have "has_suffix (''nameserver '' @ address @ '' '' @ comment_add) comment_add"
      unfolding has_suffix_iff by (rule exI [of _ "''nameserver '' @ address @ '' ''"]) simp
    ultimately show ?thesis by (simp add: added_line_def)
  qed
  have kept: "\<not> added_line (rewrite_line ?e l)" if "l \<in> set ?ls" for l
    using line(1) [OF that] added_line_commented [of l "comment_out @ '' ''"] by (simp add: rewrite_store)
  have "filter (\<lambda>l. \<not> added_line l) (map (rewrite_line ?e) ?ls) = map (rewrite_line ?e) ?ls"
    using kept by (auto simp: filter_map o_def intro: filter_True)
  then have removed: "remove_added (rewritten ?e text) = concat (map (rewrite_line ?e) ?ls)"
    by (simp add: remove_added_def lines entry)
  have "pieces newline (?e # map (rewrite_line ?e) ?ls)" by (rule store_pieces [OF assms(3)])
  then have "split_after newline (concat (map (rewrite_line ?e) ?ls)) = map (rewrite_line ?e) ?ls"
    by (intro split_after_concat) (simp add: pieces_Cons)
  moreover have "rewrite_line [] (rewrite_line ?e l) = (if nameserver_line l then trim_left l '' '' else l)"
    if "l \<in> set ?ls" for l
    using line(2) [OF that] uncomment_line [of l]
    by (simp add: rewrite_store) (simp add: rewrite_line_def)
  ultimately have "rewritten [] (rewritten ?e text) = unindented text"
    by (simp add: rewritten_def [of "[]"] removed unindented_def cong: map_cong)
  then show ?thesis by (simp add: clean_def stored update_rewritten [OF assms(1)])
qed

lemma clean_stored:
  assumes "io_ok d" "untouched text" "newline \<notin> set address"
  shows "clean d (fst (store_address d address text)) = text"
  using clean_stored_unmarked [OF assms(1) untouched_unmarked [OF assms(2)] assms(3)]
  by (simp add: unindented_untouched [OF assms(2)])

text \<open>
  C39. Round trip: cleaning up after an address has been stored gives back the text the file had
  before, byte for byte, whatever its last line looks like, if no line was marked as added or
  disabled before and no name server line starts with a space.
\<close>

theorem clean_undoes_store:
  assumes "io_ok d" "untouched text" "newline \<notin> set address"
  shows "clean d (fst (store_address d address text)) = text"
  by (rule clean_stored [OF assms])

lemma sample_text_untouched: "untouched sample_text"
  unfolding untouched_def by code_simp

theorem clean_undoes_store_witness:
  "clean all_succeed (fst (store_address all_succeed ''127.0.0.1'' sample_text)) = sample_text"
  by (rule clean_undoes_store) (simp_all add: sample_text_untouched newline_def)

end
