(* ===== verification/Main_Program.thy ===== *)
theory Main_Program
  imports Startup Resolvconf Hostsfile_Correct
begin

text \<open>
  The life of the process (\<open>app.Action\<close> in \<open>main.go\<close>): the flags are read, \<open>/etc/resolv.conf\<close> is
  cleaned and then read, the configuration is completed and checked, the hosts file is loaded, the
  program registers itself in \<open>/etc/resolv.conf\<close> when it is to be the default resolver, serves, and
  on a signal cleans up. What the model follows is the text of \<open>/etc/resolv.conf\<close>.
\<close>

section \<open>The action\<close>

text \<open>
  What the process meets: the file operations of its \<open>i\<close>-th update of \<open>/etc/resolv.conf\<close>, what the
  DNS library makes of the text of that file, the other files, and what others do to
  \<open>/etc/resolv.conf\<close> while the server runs.
\<close>

record machine =
  update_io :: "nat \<Rightarrow> io"
  parse_conf :: "string \<Rightarrow> client_config option"
  read_path :: "string \<Rightarrow> string option"
  others_edit :: "string \<Rightarrow> string"

text \<open>
  Why a running server stops: a signal, an error returned by \<open>Run\<close>, or an error of one of its
  listeners, which ends the process where it occurs. \<open>log.Fatal\<close> ends the process without running
  deferred functions.
\<close>

datatype exit_cause = Signal | Run_Error string | Listen_Error string

datatype outcome = Not_Started startup_error | No_Hostsfile | Served config exit_cause

text \<open>The host of the listening address: \<open>address, _, _ := net.SplitHostPort(config.DnsAddr)\<close>.\<close>

definition own_address :: "config \<Rightarrow> string" where
  "own_address C = (case split_host_port (cfg_dns_addr C) of Some (host, _) \<Rightarrow> host | None \<Rightarrow> [])"

definition register :: "machine \<Rightarrow> config \<Rightarrow> string \<Rightarrow> string" where
  "register M C text =
     (if cfg_default_resolver C then fst (store_address (update_io M 1) (own_address C) text) else text)"

definition serve_until :: "machine \<Rightarrow> config \<Rightarrow> exit_cause \<Rightarrow> string \<Rightarrow> string" where
  "serve_until M C cause text =
     (case cause of
        Signal \<Rightarrow> if cfg_default_resolver C then clean (update_io M 2) (others_edit M text)
                  else others_edit M text
      | _ \<Rightarrow> others_edit M text)"

definition action :: "machine \<Rightarrow> dns_lib \<Rightarrow> cli \<Rightarrow> exit_cause \<Rightarrow> string \<Rightarrow> (outcome \<times> string) go" where
  "action M L cl cause text =
     (case read_flags L cl of
        Inl e \<Rightarrow> Inr (Not_Started e, text)
      | Inr config \<Rightarrow>
          (let text = clean (update_io M 0) text in
           case complete_config L cl (parse_conf M text) config of
             Inl e \<Rightarrow> Inr (Not_Started e, text)
           | Inr config \<Rightarrow>
               bind_go (new_hostsfile (read_path M) (cfg_hostsfile config) (cfg_poll_interval config))
                 (\<lambda>hf. case hf of
                    None \<Rightarrow> Inr (No_Hostsfile, text)
                  | Some hf \<Rightarrow>
                      Inr (Served config cause, serve_until M config cause (register M config text)))))"

section \<open>What is left in the file\<close>

lemma clean_untouched: "io_ok d \<Longrightarrow> untouched text \<Longrightarrow> clean d text = text"
  by (simp add: clean_unmarked untouched_unmarked)

lemma split_host_subset: "split_host_port hp = Some (host, port) \<Longrightarrow> set host \<subseteq> set hp"
  by (auto simp: split_host_port_def split: option.splits if_splits dest!: in_set_takeD in_set_dropD)

text \<open>An address without a line break, which no listening address that an operator types has.\<close>

definition one_line :: "cli \<Rightarrow> bool" where
  "one_line cl \<longleftrightarrow> newline \<notin> set (cl_listen cl)"

lemma completed_address: "complete_config L cl rc c = Inr C \<Longrightarrow> cfg_dns_addr C = cfg_dns_addr c"
proof (elim complete_config_Inr)
  fix C1 assume "check_config (case resolv_conf L rc (cl_ndots_set cl) c of Some c \<Rightarrow> c | None \<Rightarrow> c) = Inr C1"
  from check_config_accepts(11) [OF this] have "cfg_dns_addr C1 = cfg_dns_addr c"
    using resolv_conf_addr by (cases "resolv_conf L rc (cl_ndots_set cl) c") auto
  then show "C = C1 \<or> (\<exists>zones. parse_stubzones L (cl_stubzones cl) fmempty = Inr zones \<and>
      C = C1\<lparr>cfg_stub := Some zones\<rparr>) \<Longrightarrow> cfg_dns_addr C = cfg_dns_addr c" by auto
qed

lemma own_address_one_line:
  assumes "read_flags L cl = Inr c" "complete_config L cl rc c = Inr C" "one_line cl"
  shows "newline \<notin> set (own_address C)"
proof -
  have "cfg_dns_addr C = with_port (cl_listen cl)"
    using read_flags_listen [OF assms(1)] completed_address [OF assms(2)]
    by (auto simp: server_address_def Let_def split: option.splits)
  then have "newline \<notin> set (cfg_dns_addr C)"
    using assms(3) by (simp add: one_line_def with_port_def newline_def)
  then show ?thesis
    using split_host_subset [of "cfg_dns_addr C"]
    by (cases "split_host_port (cfg_dns_addr C)") (auto simp: own_address_def)
qed

text \<open>All file operations succeed, and nobody else writes to the file while the server runs.\<close>

definition undisturbed :: "machine \<Rightarrow> bool" where
  "undisturbed M \<longleftrightarrow> (\<forall>i. io_ok (update_io M i)) \<and> (\<forall>text. others_edit M text = text)"

lemma undisturbedD: "undisturbed M \<Longrightarrow> io_ok (update_io M i)" "undisturbed M \<Longrightarrow> others_edit M text = text"
  by (simp_all add: undisturbed_def)

text \<open>Every way the action returns.\<close>

lemma action_cases:
  assumes "action M L cl cause text = Inr (out, text')"
  obtains (flags) e where "read_flags L cl = Inl e" "out = Not_Started e" "text' = text"
    | (config) c e where "read_flags L cl = Inr c" "out = Not_Started e" "text' = clean (update_io M 0) text"
    | (hosts) c where "read_flags L cl = Inr c" "out = No_Hostsfile" "text' = clean (update_io M 0) text"
    | (served) c C where "read_flags L cl = Inr c"
      "complete_config L cl (parse_conf M (clean (update_io M 0) text)) c = Inr C" "out = Served C cause"
      "text' = serve_until M C cause (register M C (clean (update_io M 0) text))"
proof (cases "read_flags L cl")
  case (Inl e)
  with assms flags show thesis by (simp add: action_def)
next
  case c: (Inr c)
  let ?text = "clean (update_io M 0) text"
  show thesis
  proof (cases "complete_config L cl (parse_conf M ?text) c")
    case (Inl e)
    with assms c config [OF c, of e] show thesis by (auto simp: action_def)
  next
    case C: (Inr C)
    obtain hf where "new_hostsfile (read_path M) (cfg_hostsfile C) (cfg_poll_interval C) = Inr hf"
      using assms c C by (auto simp: action_def go_bind Let_def)
    then show thesis using assms c C hosts [OF c] served [OF c C] by (cases hf) (auto simp: action_def Let_def)
  qed
qed

lemma action_served:
  assumes "start L cl (parse_conf M (clean (update_io M 0) text)) = Inr C"
    and "new_hostsfile (read_path M) (cfg_hostsfile C) (cfg_poll_interval C) = Inr (Some h)"
  shows "action M L cl cause text
    = Inr (Served C cause, serve_until M C cause (register M C (clean (update_io M 0) text)))"
  using assms by (auto simp: action_def start_def Let_def split: sum.splits)

lemma served_start:
  "action M L cl cause text = Inr (Served C cause', text') \<Longrightarrow>
   \<exists>rc. start L cl rc = Inr C"
  by (elim action_cases) (auto simp: start_def)

lemma new_hostsfile_ok:
  "new_hostsfile read path poll = Inr (Some h) \<Longrightarrow> hosts_ok (hf_hosts h)"
  by (auto simp: new_hostsfile_def Let_def go_bind hosts_ok_def split: if_splits
      dest!: load_host_entries_ok)

text \<open>A concrete machine, for the witnesses.\<close>

definition sample_machine :: machine where
  "sample_machine =
     \<lparr>update_io = (\<lambda>_. all_succeed), parse_conf = (\<lambda>_. None), read_path = (\<lambda>_. None),
      others_edit = (\<lambda>text. text)\<rparr>"

lemma sample_machine_undisturbed [simp]: "undisturbed sample_machine"
  by (simp add: undisturbed_def sample_machine_def)

lemma sample_one_line [simp]: "one_line sample_cli"
  by (simp add: one_line_def sample_cli_def newline_def)

lemma sample_action:
  "action sample_machine sample_lib sample_cli cause sample_text
    = Inr (Served sample_started cause, serve_until sample_machine sample_started cause
        (register sample_machine sample_started sample_text))"
  using action_served [of sample_lib sample_cli sample_machine sample_text sample_started]
    sample_start clean_untouched [OF all_succeed_ok sample_text_untouched]
  by (simp add: sample_machine_def new_hostsfile_def sample_started_def sample_cli_def)

lemma registered_unmarked:
  assumes "undisturbed M" "unmarked text" "newline \<notin> set (own_address C)"
  shows "clean (update_io M i) (register M C text) = (if cfg_default_resolver C then unindented text else text)"
proof (cases "cfg_default_resolver C")
  case True
  have "fst (store_address (update_io M 1) a text) = fst (store_address (update_io M i) a text)" for a
    using undisturbedD(1) [OF assms(1)] by (simp add: store_address_def update_rewritten)
  with True clean_stored_unmarked [OF undisturbedD(1) [OF assms(1)] assms(2,3), of i] show ?thesis
    by (simp add: register_def)
qed (simp add: register_def clean_unmarked [OF undisturbedD(1) [OF assms(1)] assms(2)])

lemma registered_text:
  assumes "undisturbed M" "untouched text" "newline \<notin> set (own_address C)"
  shows "clean (update_io M i) (register M C text) = text"
  using registered_unmarked [OF assms(1) untouched_unmarked [OF assms(2)] assms(3)]
  by (simp add: unindented_untouched [OF assms(2)])

text \<open>
  C11. The program leaves \<open>/etc/resolv.conf\<close> as it found it, byte for byte, when it cannot start,
  whatever the reason, and when a signal ends it, with one exception: if it was registered, the name
  server lines have lost their leading spaces (\<open>unindented\<close>, which is the text itself when it has no
  such lines, as \<open>unindented_untouched\<close> shows). This is for a file without the program's marks and a
  listening address on one line, when all file operations succeed and nobody else writes the file.
\<close>

theorem orderly_exit_restores_resolv_conf:
  assumes "action M L cl cause text = Inr (out, text')" "undisturbed M" "unmarked text" "one_line cl"
    and "cause = Signal \<or> (\<forall>C. out \<noteq> Served C cause)"
  shows "text' = (if \<exists>C. out = Served C cause \<and> cfg_default_resolver C then unindented text else text) \<and>
    (untouched text \<longrightarrow> text' = text)"
proof -
  have "text' = (if \<exists>C. out = Served C cause \<and> cfg_default_resolver C then unindented text else text)"
    using assms(1)
  proof (cases rule: action_cases)
    case (served c C)
    have "clean (update_io M 0) text = text" by (rule clean_unmarked [OF undisturbedD(1) [OF assms(2)] assms(3)])
    with served registered_unmarked [OF assms(2,3) own_address_one_line [OF served(1,2) assms(4)], of 2] assms(5)
    show ?thesis by (auto simp: serve_until_def register_def undisturbedD(2) [OF assms(2)])
  qed (auto simp: clean_unmarked [OF undisturbedD(1) [OF assms(2)] assms(3)])
  then show ?thesis by (auto simp: unindented_untouched)
qed

text \<open>A text whose name server line is indented: the program changes it, once.\<close>

definition indented_text :: string where
  "indented_text = '' nameserver 10.0.0.1'' @ [newline]"

lemma indented_unmarked: "unmarked indented_text"
  unfolding unmarked_def by code_simp

lemma indented_unindented: "unindented indented_text = ''nameserver 10.0.0.1'' @ [newline]"
  by code_simp

lemma indented_action:
  "action sample_machine sample_lib sample_cli cause indented_text
    = Inr (Served sample_started cause, serve_until sample_machine sample_started cause
        (register sample_machine sample_started indented_text))"
  using action_served [of sample_lib sample_cli sample_machine indented_text sample_started]
    sample_start clean_unmarked [OF all_succeed_ok indented_unmarked]
  by (simp add: sample_machine_def new_hostsfile_def sample_started_def sample_cli_def)

theorem orderly_exit_restores_resolv_conf_witness:
  "serve_until sample_machine sample_started Signal (register sample_machine sample_started indented_text)
    = ''nameserver 10.0.0.1'' @ [newline]"
proof -
  have "cfg_default_resolver sample_started" by (simp add: sample_started_def sample_cli_def)
  with orderly_exit_restores_resolv_conf [OF indented_action _ indented_unmarked, of Signal] show ?thesis
    by (simp add: indented_unindented)
qed

text \<open>
  C12. When the server itself fails, after the program has registered itself, \<open>/etc/resolv.conf\<close> is
  left with the address of the server that is gone as its only name server, because \<open>log.Fatal\<close>
  does not run the deferred clean-up.
\<close>

theorem failed_server_stays_registered:
  assumes "action M L cl cause text = Inr (Served C cause, text')" "undisturbed M" "untouched text"
    and "one_line cl" "cause \<noteq> Signal" "cfg_default_resolver C"
  shows "filter nameserver_line (split_after newline text') = [store_entry (own_address C)]"
  using assms(1)
proof (cases rule: action_cases)
  case (served c C')
  then have "text' = fst (store_address (update_io M 1) (own_address C) (clean (update_io M 0) text))"
    using assms(5,6) undisturbedD(2) [OF assms(2)] by (cases cause) (simp_all add: serve_until_def register_def)
  moreover have "newline \<notin> set (own_address C)"
    using own_address_one_line [OF served(1,2) assms(4)] served(3) by simp
  ultimately show ?thesis using stored_nameservers [OF undisturbedD(1) [OF assms(2)]] by simp
qed auto

theorem failed_server_stays_registered_witness:
  "filter nameserver_line (split_after newline
      (serve_until sample_machine sample_started (Run_Error ''e'')
        (register sample_machine sample_started sample_text)))
    = [store_entry (own_address sample_started)]"
  by (rule failed_server_stays_registered [OF sample_action sample_machine_undisturbed
        sample_text_untouched sample_one_line])
    (simp_all add: sample_started_def sample_cli_def)

text \<open>
  C13. Recovery: a start after such a failure behaves in every respect as if the file had never been
  touched; in particular it does not take its own address for an upstream server.
\<close>

theorem restart_after_failure_as_if_clean:
  assumes "action M L cl cause text = Inr (out, text')" "undisturbed M" "untouched text" "one_line cl"
    and "undisturbed M'" "read_flags L' cl' = Inr c'"
  shows "action M' L' cl' cause' text' = action M' L' cl' cause' text"
proof -
  have io: "clean (update_io M' 0) t = clean (update_io M 0) t" for t
    using undisturbedD(1) [OF assms(2)] undisturbedD(1) [OF assms(5)] by (simp add: clean_def update_rewritten)
  have cl: "clean (update_io M 0) text = text" by (rule clean_untouched [OF undisturbedD(1) [OF assms(2)] assms(3)])
  have "clean (update_io M 0) text' = text"
    using assms(1)
  proof (cases rule: action_cases)
    case (served c C)
    have own: "newline \<notin> set (own_address C)" by (rule own_address_one_line [OF served(1,2) assms(4)])
    have "text' = text \<or> text' = register M C text"
      using served(4) registered_text [OF assms(2,3) own, of 2] undisturbedD(2) [OF assms(2)] cl
      by (cases cause) (auto simp: serve_until_def register_def)
    with registered_text [OF assms(2,3) own, of 0] cl show ?thesis by auto
  qed (simp_all add: cl)
  with cl io show ?thesis by (simp add: action_def assms(6))
qed

theorem restart_after_failure_as_if_clean_witness:
  "action sample_machine sample_lib sample_cli Signal
     (serve_until sample_machine sample_started (Run_Error ''e'')
       (register sample_machine sample_started sample_text))
    = action sample_machine sample_lib sample_cli Signal sample_text"
proof -
  obtain c where "read_flags sample_lib sample_cli = Inr c"
    using sample_start by (auto simp: start_def split: sum.splits)
  from restart_after_failure_as_if_clean [OF sample_action _ sample_text_untouched _ _ this] show ?thesis
    by simp
qed

end
