(* ===== verification/Command_Line.thy ===== *)
theory Command_Line
  imports Startup
begin

text \<open>
  The command line (\<open>main.go\<close>): the table of flags with their defaults and environment variables,
  and what the program reads of them. Parsing the arguments is the command-line library's
  (\<open>github.com/urfave/cli\<close>); what it hands over is the parameter \<open>cli_context\<close>. The texts of the
  help page are left out of the table.
\<close>

section \<open>The flags\<close>

datatype flag_kind = StringFlag string | BoolFlag | IntFlag int | StringSliceFlag

datatype flag = Flag (f_name: string) (f_kind: flag_kind) (f_env: string) (f_hidden: bool)

definition flags :: "flag list" where
  "flags =
     [Flag ''listen, l'' (StringFlag ''127.0.0.1:53'') ''DNSMASQ_LISTEN'' False,
      Flag ''default-resolver, d'' BoolFlag ''DNSMASQ_DEFAULT'' False,
      Flag ''nameservers, n'' (StringFlag []) ''DNSMASQ_SERVERS'' False,
      Flag ''stubzones, z'' StringSliceFlag ''DNSMASQ_STUB'' False,
      Flag ''hostsfile, f'' (StringFlag []) ''DNSMASQ_HOSTSFILE'' False,
      Flag ''hostsfile-poll, p'' (IntFlag 0) ''DNSMASQ_POLL'' False,
      Flag ''search-domains, s'' (StringFlag []) ''DNSMASQ_SEARCH_DOMAINS,DNSMASQ_SEARCH,'' False,
      Flag ''append-search-domains, a'' BoolFlag ''DNSMASQ_APPEND'' True,
      Flag ''enable-search, search'' BoolFlag ''DNSMASQ_ENABLE_SEARCH'' False,
      Flag ''rcache, r'' (IntFlag 0) ''DNSMASQ_RCACHE'' False,
      Flag ''rcache-ttl'' (IntFlag 60) ''DNSMASQ_RCACHE_TTL'' False,
      Flag ''rcache-ttl-from-resp'' BoolFlag ''GO_DNSMASQ_RSTALE_TTL_FROM_RESP'' False,
      Flag ''rcache-ttl-max'' (IntFlag 3600) ''GO_DNSMASQ_RCACHE_TTL_MAX'' False,
      Flag ''rstale-ttl'' (IntFlag 0) ''GO_DNSMASQ_RSTALE_TTL'' False,
      Flag ''rcache-non-negative'' BoolFlag ''GO_DNSMASQ_CACHE_NON_NEGATIVE'' False,
      Flag ''no-rec'' BoolFlag ''DNSMASQ_NOREC'' False,
      Flag ''fwd-ndots'' (IntFlag 0) ''DNSMASQ_FWD_NDOTS'' False,
      Flag ''ndots'' (IntFlag 1) ''DNSMASQ_NDOTS'' False,
      Flag ''round-robin'' BoolFlag ''DNSMASQ_RR'' False,
      Flag ''systemd'' BoolFlag ''DNSMASQ_SYSTEMD'' False,
      Flag ''verbose'' BoolFlag ''DNSMASQ_VERBOSE'' False,
      Flag ''syslog'' BoolFlag ''DNSMASQ_SYSLOG'' False,
      Flag ''multithreading'' BoolFlag ''DNSMASQ_MULTITHREADING'' False]"

text \<open>The library takes a flag's names, and its environment variables, from lists with commas.\<close>

definition comma_names :: "string \<Rightarrow> string list" where
  "comma_names s = map trim_space (split_on (CHR '','') s)"

definition flag_names :: "flag \<Rightarrow> string list" where
  "flag_names f = comma_names (f_name f)"

section \<open>What is read\<close>



section \<open>Defaults\<close>





text \<open>Every name belongs to one flag.\<close>

lemma flag_names_distinct: "distinct (concat (map flag_names flags))"
  by code_simp











end
