(* ===== verification/Listeners.thy ===== *)
theory Listeners
  imports Server_Config
begin

text \<open>
  Starting the DNS server (\<open>Run\<close> of \<open>server/server.go\<close>): which sockets are served. The sockets that
  systemd passes and the errors of asking for them are parameters; serving a socket is the DNS
  library's. An error of a listener ends the process (theory \<open>Main_Program\<close>).
\<close>

section \<open>Sockets\<close>

text \<open>The sockets of systemd, by the type the code tests for, with their local address.\<close>

datatype packet_conn = UDPConn string | OtherPacketConn
datatype stream_listener = TCPListener string | OtherListener

text \<open>A call of \<open>dns.ActivateAndServe\<close> or \<open>dns.ListenAndServe\<close> in a goroutine.\<close>

datatype serving =
    Activate_UDP string
  | Activate_TCP string
  | Listen string string

fun activate_packet_conns :: "packet_conn list \<Rightarrow> serving list" where
  "activate_packet_conns [] = []"
| "activate_packet_conns (UDPConn u # ps) = Activate_UDP u # activate_packet_conns ps"
| "activate_packet_conns (OtherPacketConn # ps) = activate_packet_conns ps"

fun activate_listeners :: "stream_listener list \<Rightarrow> serving list" where
  "activate_listeners [] = []"
| "activate_listeners (TCPListener t # ls) = Activate_TCP t # activate_listeners ls"
| "activate_listeners (OtherListener # ls) = activate_listeners ls"

text \<open>\<open>Run\<close>: an error it returns, or what it serves until it is stopped.\<close>

definition run_server ::
  "config \<Rightarrow> string + packet_conn list \<Rightarrow> string + stream_listener list \<Rightarrow> string + serving list"
where
  "run_server C packet_conns listeners =
     (if cfg_systemd C then
        (case packet_conns of
           Inl err \<Rightarrow> Inl err
         | Inr ps \<Rightarrow>
             (case listeners of
                Inl err \<Rightarrow> Inl err
              | Inr ls \<Rightarrow>
                  if length ps = 0 \<and> length ls = 0
                  then Inl ''No UDP or TCP sockets supplied by systemd''
                  else Inr (activate_packet_conns ps @ activate_listeners ls)))
      else Inr [Listen ''tcp'' (cfg_dns_addr C), Listen ''udp'' (cfg_dns_addr C)])"

section \<open>What is served\<close>

lemma activate_packet_conns_iff: "s \<in> set (activate_packet_conns ps) \<longleftrightarrow> (\<exists>u. s = Activate_UDP u \<and> UDPConn u \<in> set ps)"
  by (induction ps rule: activate_packet_conns.induct) auto

lemma activate_listeners_iff: "s \<in> set (activate_listeners ls) \<longleftrightarrow> (\<exists>t. s = Activate_TCP t \<and> TCPListener t \<in> set ls)"
  by (induction ls rule: activate_listeners.induct) auto

text \<open>
  What is served: without systemd activation, the configured address over TCP and UDP and
  nothing else; with it, every UDP and every TCP socket that was passed and nothing else, and it is
  an error if none is passed. Sockets of other kinds do not count as missing: with only such
  sockets the server starts without an error and serves nothing.
\<close>

lemma run_serves:
  "if cfg_systemd C
   then (case run_server C (Inr ps) (Inr ls) of
           Inl err \<Rightarrow> length ps + length ls = 0
         | Inr served \<Rightarrow> 0 < length ps + length ls \<and>
             set served = Activate_UDP ` {u. UDPConn u \<in> set ps} \<union> Activate_TCP ` {t. TCPListener t \<in> set ls})
   else run_server C pcs lns = Inr [Listen ''tcp'' (cfg_dns_addr C), Listen ''udp'' (cfg_dns_addr C)]"
  by (auto simp: run_server_def activate_packet_conns_iff activate_listeners_iff image_iff split: sum.splits)

end
