(* ===== verification/Dump.thy ===== *)
theory Dump
  imports Cache_Correct
begin

text \<open>
  The dump of the cache (\<open>DumpCache\<close> of \<open>cache/cache.go\<close>): its header, its table of entries, and
  what \<open>fmt\<close>, \<open>time.Duration\<close> and \<open>text/tabwriter\<close> make of them. The cells have no tabs and line
  breaks: names come from the DNS library, which escapes them.
\<close>

section \<open>Formatting\<close>

definition nl :: string where
  "nl = [CHR 0x0A]"

definition int_string :: "int \<Rightarrow> string" where
  "int_string i = (if i < 0 then ''-'' @ dec_string (nat (- i)) else dec_string (nat i))"

definition bool_string :: "bool \<Rightarrow> string" where
  "bool_string b = (if b then ''true'' else ''false'')"

text \<open>
  \<open>Duration.String\<close>: the digits of a fraction without its trailing zeros, and hours, minutes and
  seconds, or a smaller unit below one second. The sign of micro is two bytes in UTF-8.
\<close>

definition frac_string :: "nat \<Rightarrow> nat \<Rightarrow> string" where
  "frac_string prec u =
     (let ds = dec_string (u mod 10 ^ prec);
          ds = replicate (prec - length ds) (CHR ''0'') @ ds;
          ds = rev (dropWhile (\<lambda>c. c = CHR ''0'') (rev ds))
      in if prec = 0 \<or> ds = [] then [] else ''.'' @ ds)"

definition duration_string :: "int \<Rightarrow> string" where
  "duration_string d =
     (let u = nat \<bar>d\<bar>;
          sign = (if d < 0 then ''-'' else []);
          small = (\<lambda>prec unit. dec_string (u div 10 ^ prec) @ frac_string prec u @ unit)
      in sign @
         (if u = 0 then ''0s''
          else if u < 1000 then small 0 ''ns''
          else if u < 1000000 then small 3 [CHR 0xC2, CHR 0xB5, CHR ''s'']
          else if u < 1000000000 then small 6 ''ms''
          else
            (let sec = u div 1000000000; minutes = sec div 60; hours = minutes div 60 in
             (if hours > 0 then dec_string hours @ ''h'' else []) @
             (if minutes > 0 then dec_string (minutes mod 60) @ ''m'' else []) @
             dec_string (sec mod 60) @ frac_string 9 u @ ''s'')))"

section \<open>Aligned columns\<close>

text \<open>
  \<open>text/tabwriter\<close> with a minimal width of 1 and a padding of one space. A column is as wide as its
  widest cell and the padding; the last cell of a line ends it. Widths count code points, that is
  bytes which do not continue a UTF-8 sequence.
\<close>

definition rune_count :: "string \<Rightarrow> nat" where
  "rune_count s = length (filter (\<lambda>c. \<not> ((128 :: nat) \<le> of_char c \<and> of_char c < (192 :: nat))) s)"

definition column_width :: "string list list \<Rightarrow> nat \<Rightarrow> nat" where
  "column_width rows j = foldr (\<lambda>row w. max (rune_count (row ! j) + 1) w) rows 1"

definition pad_to :: "nat \<Rightarrow> string \<Rightarrow> string" where
  "pad_to w cell = cell @ replicate (w - rune_count cell) (CHR '' '')"

definition padded_cells :: "string list list \<Rightarrow> string list \<Rightarrow> string list" where
  "padded_cells rows row = map (\<lambda>(j, cell). pad_to (column_width rows j) cell) (enumerate 0 (butlast row))"

definition table_line :: "string list list \<Rightarrow> string list \<Rightarrow> string" where
  "table_line rows row = concat (padded_cells rows row) @ last row @ nl"

definition table_text :: "string list list \<Rightarrow> string" where
  "table_text rows = concat (map (table_line rows) rows)"

section \<open>The dump\<close>

definition dump_titles :: "string list" where
  "dump_titles = [''QType'', ''Expired'', ''StaleExpired'', ''TTL(s)'', ''Expire In'', ''StaleExpire In'',
                  ''Question'', ''Hits'', ''StaleHits'']"

definition dump_cells :: "dump_row \<Rightarrow> string list" where
  "dump_cells r =
     [d_qtype r, bool_string (d_expired r), bool_string (d_stale_expired r), dec_string (unat (d_ttl r)),
      duration_string (d_expire_in r), duration_string (d_stale_expire_in r), d_question r,
      dec_string (unat (d_hits r)), dec_string (unat (d_stale_hits r))]"

text \<open>\<open>now_text\<close> is \<open>now.Format(time.RFC3339)\<close>, which depends on the local time zone.\<close>

definition dump_header :: "string \<Rightarrow> cache \<Rightarrow> string" where
  "dump_header now_text c =
     concat (map (\<lambda>line. line @ nl)
       [''=== BEGIN CACHE DUMP ==='',
        [],
        ''Capacity: '' @ int_string (capacity c),
        ''Current Size: '' @ dec_string (fmsize (entries c)),
        ''Default: '' @ duration_string (ttl c),
        ''Stale TTL: '' @ duration_string (stale_ttl c),
        ''Min TTL (s): '' @ dec_string (unat (ttl_min_seconds c)),
        ''Max TTL (s): '' @ dec_string (unat (ttl_max_seconds c)),
        [],
        ''Dumped at: '' @ now_text,
        []])"

definition dump_cache :: "string \<Rightarrow> int \<Rightarrow> (nat \<Rightarrow> nat \<Rightarrow> int) \<Rightarrow> string order_fun \<Rightarrow> cache \<Rightarrow> string" where
  "dump_cache now_text now clk pick c =
     dump_header now_text c @
     table_text (dump_titles # map dump_cells (dump_rows now clk pick c)) @
     nl @ ''=== END CACHE DUMP ==='' @ nl"

section \<open>The table is aligned and complete\<close>

lemma rune_count_append [simp]: "rune_count (s @ t) = rune_count s + rune_count t"
  by (simp add: rune_count_def)

lemma rune_count_spaces [simp]: "rune_count (replicate n (CHR '' '')) = n"
  by (simp add: rune_count_def)

lemma column_width_ge: "row \<in> set rows \<Longrightarrow> rune_count (row ! j) < column_width rows j"
  by (induction rows) (auto simp: column_width_def)

lemma rune_count_pad: "rune_count cell \<le> w \<Longrightarrow> rune_count (pad_to w cell) = w"
  by (simp add: pad_to_def)

lemma padded_cells_nth:
  "j < length row - 1 \<Longrightarrow> padded_cells rows row ! j = pad_to (column_width rows j) (row ! j)"
  by (simp add: padded_cells_def nth_enumerate_eq nth_butlast)

lemma rune_count_padded:
  assumes "row \<in> set rows" "j < length row"
  shows "rune_count (concat (take j (padded_cells rows row))) = sum_list (map (column_width rows) [0..<j])"
  using assms(2)
proof (induction j)
  case (Suc j)
  then have "j < length (padded_cells rows row)" by (simp add: padded_cells_def)
  then have "take (Suc j) (padded_cells rows row) = take j (padded_cells rows row) @ [padded_cells rows row ! j]"
    by (rule take_Suc_conv_app_nth)
  moreover have "rune_count (padded_cells rows row ! j) = column_width rows j"
    using Suc.prems less_imp_le [OF column_width_ge [OF assms(1), of j]]
    by (simp add: padded_cells_nth rune_count_pad)
  ultimately show ?case using Suc by simp
qed (simp add: rune_count_def)

text \<open>
  The table of the dump is aligned and complete: it has a line for every entry of the cache, and
  the cells of every column start at the same position in all lines, whatever the entries hold.
\<close>

lemma dump_table_aligned:
  assumes "is_order pick" "rows = dump_titles # map dump_cells (dump_rows now clk pick c)"
    and "row \<in> set rows" "j < 9"
  shows "length rows = cache_size c + 1 \<and> length row = 9 \<and>
    rune_count (concat (take j (padded_cells rows row))) = sum_list (map (column_width rows) [0..<j])"
proof -
  have len: "length row = 9"
    using assms(2,3) by (auto simp: dump_titles_def dump_cells_def)
  moreover have "length rows = cache_size c + 1"
    using is_order_length [OF assms(1)] by (simp add: assms(2) dump_rows_def cache_size_def fmsize_def)
  ultimately show ?thesis using rune_count_padded [OF assms(3), of j] assms(4) by simp
qed

end
