(* ===== verification/Control.thy ===== *)
theory Control
  imports Live_Counters Dump
begin

text \<open>
  The control server (\<open>control/control.go\<close>) and the export of the counters (the table of
  \<open>stats/graphite.go\<close>). A handler maps what it reads to the response it writes; encoding to JSON
  and the HTTP server are library code. The hit rate is the exact quotient (the program's is the
  nearest floating-point number).
\<close>

section \<open>Reports\<close>

record stats_response =
  r_forward_count :: int
  r_stub_forward_count :: int
  r_lookup_count :: int
  r_request_count :: int
  r_dnssec_ok_count :: int
  r_name_error_count :: int
  r_no_data_count :: int
  r_dnssec_cache_miss :: int
  r_cache_miss :: int
  r_cache_hit :: int
  r_request_fail :: int
  r_stale_cache_hit :: int
  r_cache_size :: int
  r_cache_capacity :: int
  r_cache_hit_rate :: rat

text \<open>
  The handler reads the counters one after the other while requests are served: \<open>view i\<close> is the
  server at its \<open>i\<close>-th reading. The hits are read three times, twice for the rate.
\<close>

definition stats_report :: "(nat \<Rightarrow> server) \<Rightarrow> stats_response" where
  "stats_report view =
     (let hit_and_miss = stats (view 0) CacheHit + stats (view 1) CacheMiss;
          hit_rate = (if hit_and_miss > 0 then of_int (stats (view 2) CacheHit) / of_int hit_and_miss else 0)
      in \<lparr>r_forward_count = stats (view 3) ForwardCount,
          r_stub_forward_count = stats (view 4) StubForwardCount,
          r_lookup_count = stats (view 5) LookupCount,
          r_request_count = stats (view 6) RequestCount,
          r_dnssec_ok_count = stats (view 7) DnssecOkCount,
          r_name_error_count = stats (view 8) NameErrorCount,
          r_no_data_count = stats (view 9) NoDataCount,
          r_dnssec_cache_miss = stats (view 10) DnssecCacheMiss,
          r_cache_miss = stats (view 11) CacheMiss,
          r_cache_hit = stats (view 12) CacheHit,
          r_request_fail = stats (view 13) RequestFail,
          r_stale_cache_hit = stats (view 14) StaleCacheHit,
          r_cache_size = int (cache_size (rcache (view 15))),
          r_cache_capacity = cache_capacity (rcache (view 16)),
          r_cache_hit_rate = hit_rate\<rparr>)"

section \<open>Responses\<close>

datatype body =
    Ping_Body string
  | Stats_Body stats_response
  | Dump_Body string
  | Error_Body string

record response =
  rs_status :: int
  rs_content_type :: string
  rs_body :: body

definition write_response :: "string + body \<Rightarrow> response" where
  "write_response r =
     (case r of
        Inl err \<Rightarrow> \<lparr>rs_status = 500, rs_content_type = ''text/plain; charset=utf-8'',
                    rs_body = Error_Body err\<rparr>
      | Inr b \<Rightarrow> \<lparr>rs_status = 200, rs_content_type = ''application/json'', rs_body = b\<rparr>)"

text \<open>\<open>encode\<close> is \<open>json.Marshal\<close>: the body, or an error.\<close>

definition ping_handler :: "(body \<Rightarrow> string + body) \<Rightarrow> response" where
  "ping_handler encode = write_response (encode (Ping_Body ''pong''))"

definition stats_handler :: "(body \<Rightarrow> string + body) \<Rightarrow> (nat \<Rightarrow> server) \<Rightarrow> response" where
  "stats_handler encode view = write_response (encode (Stats_Body (stats_report view)))"

definition dump_handler ::
  "string \<Rightarrow> int \<Rightarrow> (nat \<Rightarrow> nat \<Rightarrow> int) \<Rightarrow> string order_fun \<Rightarrow> server \<Rightarrow> response"
where
  "dump_handler now_text now clk pick s =
     \<lparr>rs_status = 200, rs_content_type = ''text/plain'',
      rs_body = Dump_Body (dump_cache now_text now clk pick (rcache s))\<rparr>"

definition get_addr :: "nat \<Rightarrow> string" where
  "get_addr port = ''127.0.0.1'' @ '':'' @ dec_string port"

text \<open>
  The paths \<open>Run\<close> registers, and the address it listens on. A path that is not registered is answered
  by the library (\<open>None\<close>).
\<close>

definition control_port :: nat where
  "control_port = 8053"

definition control_response ::
  "(body \<Rightarrow> string + body) \<Rightarrow> string \<Rightarrow> int \<Rightarrow> (nat \<Rightarrow> nat \<Rightarrow> int) \<Rightarrow> string order_fun \<Rightarrow>
   (nat \<Rightarrow> server) \<Rightarrow> string \<Rightarrow> response option"
where
  "control_response encode now_text now clk pick view path =
     (if path = ''/ping'' then Some (ping_handler encode)
      else if path = ''/stats'' then Some (stats_handler encode view)
      else if path = ''/dump'' then Some (dump_handler now_text now clk pick (view 0))
      else None)"

definition control_listen :: "nat \<Rightarrow> string" where
  "control_listen port = get_addr port"

section \<open>The exported counters\<close>

definition exported :: "(string \<times> counter) list" where
  "exported =
     [(''go-dnsmasq-forward-requests'', ForwardCount),
      (''go-dnsmasq-stub-forward-requests'', StubForwardCount),
      (''go-dnsmasq-dnssecok-requests'', DnssecOkCount),
      (''go-dnsmasq-dnssec-cache-miss'', DnssecCacheMiss),
      (''go-dnsmasq-internal-lookups'', LookupCount),
      (''go-dnsmasq-requests'', RequestCount),
      (''go-dnsmasq-nameerror-responses'', NameErrorCount),
      (''go-dnsmasq-refused'', RefusedCount),
      (''go-dnsmasq-nodata-responses'', NoDataCount),
      (''go-dnsmasq-cache-miss'', CacheMiss),
      (''go-dnsmasq-cache-hit'', CacheHit),
      (''go-dnsmasq-stale-cache-hit'', StaleCacheHit),
      (''go-dnsmasq-stale-request-fail'', RequestFail)]"

text \<open>
  A counter variable holds a counter that counts nothing until \<open>init\<close> gives it one of the metrics
  library, in the order in which the loop visits the table.
\<close>

datatype counter_var = Nop_Counter | Metrics_Counter int

fun var_inc :: "counter_var \<Rightarrow> int \<Rightarrow> counter_var" where
  "var_inc Nop_Counter i = Nop_Counter"
| "var_inc (Metrics_Counter n) i = Metrics_Counter (n + i)"

fun var_count :: "counter_var \<Rightarrow> int" where
  "var_count Nop_Counter = 0"
| "var_count (Metrics_Counter n) = n"

text \<open>\<open>registry\<close> are the names registered so far; the library refuses a name it already has.\<close>

fun init_counters ::
  "(string \<times> counter) list \<Rightarrow> (counter \<Rightarrow> counter_var) \<times> string list \<Rightarrow> (counter \<Rightarrow> counter_var) \<times> string list"
where
  "init_counters [] s = s"
| "init_counters ((k, v) # ks) (vars, registry) =
     init_counters ks (vars(v := Metrics_Counter 0),
                       if k \<in> set registry then registry else registry @ [k])"

text \<open>
  \<open>Collect\<close>: the reporters that are started, from the environment variables \<open>GRAPHITE_SERVER\<close>,
  \<open>GRAPHITE_PREFIX\<close> and \<open>STATHAT_USER\<close>; \<open>resolve\<close> is \<open>net.ResolveTCPAddr\<close>.
\<close>

datatype reporter = Graphite string string | Stathat string

definition graphite_prefix :: "string \<Rightarrow> string" where
  "graphite_prefix env_prefix = (if env_prefix = [] then ''go-dnsmasq'' else env_prefix)"

definition collect :: "(string \<Rightarrow> string option) \<Rightarrow> string \<Rightarrow> string \<Rightarrow> string \<Rightarrow> reporter list" where
  "collect resolve graphite_server env_prefix stathat_user =
     (if graphite_server \<noteq> []
      then (case resolve graphite_server of
              Some addr \<Rightarrow> [Graphite (graphite_prefix env_prefix) addr] | None \<Rightarrow> [])
      else []) @
     (if stathat_user \<noteq> [] then [Stathat stathat_user] else [])"

text \<open>Every counter is exported, under one name of its own.\<close>

lemma exported_counters: "mset (map snd exported) = mset Enum.enum"
  by (simp add: exported_def enum_counter_def)

lemma exported_bijective:
  "distinct (map fst exported) \<and> distinct (map snd exported) \<and> k \<in> set (map snd exported)"
proof (intro conjI)
  show "distinct (map snd exported)"
    by (rule iffD2 [OF mset_eq_imp_distinct_iff [OF exported_counters] enum_distinct])
  show "k \<in> set (map snd exported)"
    unfolding mset_eq_setD [OF exported_counters] by (simp add: enum_UNIV)
qed (simp add: exported_def)

lemma init_counters_vars:
  "fst (init_counters ks s) v = (if v \<in> set (map snd ks) then Metrics_Counter 0 else fst s v)"
  by (induction ks s rule: init_counters.induct) auto

lemma init_counters_registry:
  "set (snd (init_counters ks s)) = set (snd s) \<union> set (map fst ks)"
  "distinct (snd s) \<Longrightarrow> distinct (snd (init_counters ks s))"
  by (induction ks s rule: init_counters.induct) auto

text \<open>
  Collection starts from zero: in whatever order the table is visited, after \<open>init\<close> every counter
  the server increments is a counter of the metrics library that stands at zero, and its name is
  registered once.
\<close>

lemma init_collects_every_counter:
  assumes "mset order = mset exported"
  shows "fst (init_counters order (vars, [])) = (\<lambda>_. Metrics_Counter 0) \<and>
    mset (snd (init_counters order (vars, []))) = mset (map fst exported)"
proof -
  have s: "set order = set exported" by (rule mset_eq_setD [OF assms])
  have "set (map snd order) = UNIV" "set (map fst order) = set (map fst exported)"
    using exported_bijective s by auto
  moreover have "mset (snd (init_counters order (vars, []))) = mset (map fst exported)"
  proof (rule iffD1 [OF set_eq_iff_mset_eq_distinct])
    show "set (snd (init_counters order (vars, []))) = set (map fst exported)"
      using init_counters_registry(1) [where ks = order and s = "(vars, [])"] s by simp
  qed (use exported_bijective init_counters_registry(2) [where ks = order and s = "(vars, [])"] in auto)
  ultimately show ?thesis by (auto simp: fun_eq_iff init_counters_vars)
qed

section \<open>The statistics\<close>

text \<open>
  The rate lies between 0 and 1, plus the hits that are counted while it is computed: hits and
  misses are added up first and the hits are read again afterwards.
\<close>

lemma hit_rate_bounds:
  assumes "0 \<le> stats (view 0) CacheHit" "0 \<le> stats (view 1) CacheMiss"
    and "stats (view 0) CacheHit \<le> stats (view 2) CacheHit"
  shows "0 \<le> r_cache_hit_rate (stats_report view) \<and>
    r_cache_hit_rate (stats_report view) \<le> 1 + of_int (stats (view 2) CacheHit - stats (view 0) CacheHit)"
proof (cases "stats (view 0) CacheHit + stats (view 1) CacheMiss > 0")
  case True
  let ?h = "stats (view 0) CacheHit" and ?m = "stats (view 1) CacheMiss" and ?h' = "stats (view 2) CacheHit"
  have "?h' \<le> (?h + ?m) + (?h' - ?h) * 1" using assms(2) by simp
  also have "(?h' - ?h) * 1 \<le> (?h' - ?h) * (?h + ?m)"
    using True assms(3) by (intro mult_left_mono) auto
  finally have "?h' \<le> (1 + (?h' - ?h)) * (?h + ?m)" by (simp add: algebra_simps)
  then have "(of_int ?h' :: rat) \<le> of_int ((1 + (?h' - ?h)) * (?h + ?m))" by (simp only: of_int_le_iff)
  then have "(of_int ?h' :: rat) \<le> (1 + of_int (?h' - ?h)) * of_int (?h + ?m)"
    by (simp only: of_int_mult of_int_add of_int_1)
  moreover have "(0 :: rat) < of_int (?h + ?m)" "(0 :: rat) \<le> of_int ?h'"
    using True assms by (simp_all only: of_int_0_less_iff of_int_0_le_iff)
  ultimately show ?thesis
    using True by (simp add: stats_report_def Let_def divide_le_eq del: of_int_add of_int_diff)
qed (use assms in \<open>simp add: stats_report_def Let_def\<close>)

lemma hit_rate_above_one:
  assumes "0 < stats (view 0) CacheHit + stats (view 1) CacheMiss"
    and "stats (view 0) CacheHit + stats (view 1) CacheMiss < stats (view 2) CacheHit"
  shows "1 < r_cache_hit_rate (stats_report view)"
proof -
  have "(0 :: rat) < of_int (stats (view 0) CacheHit + stats (view 1) CacheMiss)"
    "(of_int (stats (view 0) CacheHit + stats (view 1) CacheMiss) :: rat) < of_int (stats (view 2) CacheHit)"
    using assms by (simp_all only: of_int_0_less_iff of_int_less_iff)
  with assms(1) show ?thesis by (simp add: stats_report_def Let_def less_divide_eq_1 del: of_int_add)
qed

text \<open>With no request in progress the page is consistent in itself.\<close>

lemma stats_page_consistent:
  assumes "\<forall>(E, a, req) \<in> set rs. env_ok E \<and> request_ok req" "0 < cfg_rcache C"
  shows "returns (\<lambda>s. let r = stats_report (\<lambda>_. s) in
      r_request_count r = int (length rs) \<and>
      r_cache_hit r + r_cache_miss r \<le> r_request_count r \<and>
      0 \<le> r_cache_hit_rate r \<and> r_cache_hit_rate r \<le> 1 \<and>
      r_cache_capacity r = cfg_rcache C \<and> r_cache_size r < cfg_rcache C)
    (serve_all rs (new_server C))"
proof -
  have "cache_echo (rcache (new_server C))" "counts_agree 0 (stats (new_server C))"
    by (simp_all add: new_server_def cache_echo_new counts_agree_def)
  from returnsD [OF serve_all_counts [OF assms(1) this]] obtain s
    where s: "serve_all rs (new_server C) = Inr s" "counts_agree (length rs) (stats s)" by auto
  have "within (cfg_rcache C) (rcache (new_server C))"
    by (simp add: within_def new_server_def cache_ok_new)
  from serve_all_within [OF assms(1) this s(1)] have "within (cfg_rcache C) (rcache s)" .
  with assms(2) have "cache_capacity (rcache s) = cfg_rcache C" "int (cache_size (rcache s)) < cfg_rcache C"
    by (auto simp: within_def cache_ok_def cache_size_def cache_capacity_def)
  with s hit_rate_bounds [of "\<lambda>_. s"] show ?thesis
    by (simp add: Let_def) (simp add: stats_report_def Let_def counts_agree_def)
qed





end
