(* ===== verification/Spec2Isabelle.thy ===== *)
theory Spec2Isabelle
  imports Prelude Go_Strings Go_Net Dns_Types Cache Cache_Correct Cache_Concurrent
    Hostsfile Server_Records Hostsfile_Correct Server_Msg Server_Config Startup Forward
    Forward_Correct Upstream_Correct Server Server_Correct Server_Props Server_Concurrent Live_Server Live_Counters Live_Cache
    Resolvconf Main_Program Command_Line Listeners Dump Control
begin

text \<open>
  go-dnsmasq: a caching DNS forwarder that also answers from a hosts file.

  The program. \<open>main.go\<close> turns the command line into a configuration, completes it from
  \<open>/etc/resolv.conf\<close>, checks it, registers the program in \<open>/etc/resolv.conf\<close> and starts three
  parts: the DNS server (package \<open>server\<close>), the polling of the hosts file (package \<open>hostsfile\<close>)
  and the control server (package \<open>control\<close>). A request is handled by \<open>ServeDNS\<close>: it looks for a
  fresh answer in the response cache (package \<open>cache\<close>), then for records of the hosts file through
  the interface \<open>Hostfile\<close>, then treats reverse names and the class CHAOS, and forwards everything
  else to the upstream servers, falling back on a stale answer of the cache when they do not give
  one. Every step counts what happened through the interface \<open>Counter\<close>.

  The theories.

  \<^item> Prelude: panics as values (\<open>'a go\<close>, sequenced by \<open>bind_go\<close>; \<open>returns P m\<close> is total
    correctness), the order of a \<open>range\<close> loop over a map, sizes of finite maps.
  \<^item> Go_Strings, Go_Net: the functions of the Go library the program calls (\<open>strings\<close>,
    \<open>net.ParseIP\<close>, \<open>net.IP.String\<close>, \<open>SplitHostPort\<close>, \<open>strconv\<close>). \<open>trim_space\<close> strips Unicode white space
    in its UTF-8 encoding, as Go does; \<open>to_lower\<close> is Go's \<open>ToLower\<close> on ASCII text.
  \<^item> Dns_Types: messages, and the DNS library \<open>github.com/miekg/dns\<close> as the parameter \<open>dns_lib\<close>.
    What the program relies on is named: \<open>reply_law\<close>, \<open>rcode_law\<close>, \<open>fqdn_law\<close>, \<open>len_law\<close>;
    \<open>sample_lib\<close> is a library that satisfies all of them.
  \<^item> Cache (\<open>cache/cache.go\<close>, \<open>cache/hit.go\<close>): the record \<open>cache\<close> is the struct \<open>Cache\<close>, \<open>entries\<close> its
    map, \<open>elem\<close> an entry; \<open>insert_message\<close>, \<open>search\<close>, \<open>remove\<close>, \<open>evict_random\<close>, \<open>hit\<close>, \<open>cache_key\<close>,
    \<open>key_rrset\<close> and the rows of \<open>DumpCache\<close>. Cache_Correct: the size bound, the abstraction \<open>live\<close> of
    a cache to the answers it would give and the refinement of \<open>insert_message\<close> and \<open>hit\<close> against
    it, expiry times, and where answers come from, proved in the locale \<open>answer_store\<close>.
    Cache_Concurrent: the critical sections of \<open>Hit\<close> one by one (\<open>hit_step\<close>), with the state of a
    lookup between them (\<open>pc\<close>). Dump: the text of \<open>DumpCache\<close>, with the layout of \<open>text/tabwriter\<close>.
  \<^item> Hostsfile (\<open>hostsfile/utils.go\<close>, \<open>hostsfile/hostsfile.go\<close>): parsing a line and a file, lookups,
    loading and polling. Hostsfile_Correct: what parsing accepts and rejects, the well-formedness
    \<open>hosts_ok\<close> of every list it builds, completeness (\<open>file_entries\<close> states the list a text gives), the
    meaning of lookups, the polling loop and how it follows the file.
  \<^item> Server_Records (\<open>AddressRecords\<close>, \<open>PTRRecords\<close>): the interface \<open>Hostfile\<close> as the locale
    \<open>hostfile\<close>, interpreted on the hosts file in Hostsfile_Correct.
  \<^item> Server_Msg (\<open>Fit\<close> of \<open>server/msg.go\<close>, \<open>RoundRobin\<close>): fitting a reply to the client's buffer and
    shuffling its records.
  \<^item> Server_Config (\<open>server/config.go\<close>, \<open>server/stats.go\<close>): the configuration, its checks, and the
    counters as the locale \<open>counters\<close>, interpreted on both implementations of the program.
    Startup (\<open>main.go\<close>): from the command-line values to a checked configuration, \<open>start\<close>
    (\<open>read_flags\<close>, then \<open>complete_config\<close>). Command_Line: the table of flags with their defaults and
    environment variables. Listeners: the sockets \<open>Run\<close> serves.
  \<^item> Forward (\<open>server/forwarding.go\<close>): \<open>env\<close> is what a request finds and does not change (the
    configuration, the libraries, clocks, random numbers), \<open>server\<close> is what it changes (the cache,
    the counters, the queries sent, the replies written). Forward_Correct: the contracts and that no
    lookup panics under them, proved once in the locale \<open>upstream_contract\<close> for any relation between
    the questions of a query and of its response, and interpreted on equality (\<open>repeats\<close>) and on
    having a question at all (\<open>asks\<close>). Upstream_Correct: which servers are tried, in which order, with
    which names, and the replies when none answers (\<open>search_skipped\<close> is the case of a search that
    asks nobody).
  \<^item> Server (\<open>ServeDNS\<close>), Server_Correct (lemmas for every path through the handler) and Server_Props
    (its properties: totality with one matching reply per request, counters, what is cached, what
    may be sent upstream, stale answers).
  \<^item> Server_Concurrent: \<open>ServeDNS\<close> again, one critical section at a time: \<open>phase\<close> is where a request
    stands, \<open>serve_step\<close> its next section, and \<open>request_alone\<close> shows that a request whose sections
    nothing interrupts is served as by \<open>serve_dns\<close>, which Live_Server extends to sequences of requests
    whose steps do not overlap. Live_Server: the running process as a step
    relation (\<open>system_step\<close>) on the server, the hosts file and the stages of any number of requests,
    with the polling of the hosts file as a step of its own; \<open>runs\<close> are its interleavings and
    \<open>system_ok\<close> is their invariant. Live_Counters: the counters against the stages of the requests, in
    every state of every run. Live_Cache: the messages in the cache are replies that requests with the
    same key were given, in every state of every run.
  \<^item> Resolvconf (\<open>resolvconf/resolvconf.go\<close>): the rewriting of \<open>/etc/resolv.conf\<close> line by line and as
    file operations that can fail. Main_Program: the life of the process (\<open>action\<close>) and what it
    leaves in that file. Control (\<open>control/control.go\<close>, \<open>stats/graphite.go\<close>): the handlers and paths
    of the control server, the registration of the counters and the choice of reporters.
  \<^item> This theory joins them: a started server answers every request, in sequence and in every
    interleaving, and the way of a host name from the text of the hosts file to the reply.

  Conventions. Times are integers in nanoseconds; every reading of the clock is a parameter of its
  own, so no theorem assumes that two readings agree. The order in which a loop visits a map is a
  parameter constrained by \<open>is_order\<close> only. Random numbers are a function of the draw's index. TTLs,
  counts of hits, identifiers and sizes of buffers are words of the program's width; the durations
  computed from TTLs wrap as the program's do (\<open>seconds\<close>). A run-time panic is the left
  case of \<open>'a go\<close>, an error returned is a sum or option, and a function that exits the program has
  the error on the left. No fuel is used: the loops are structural, or have a measure (the interval of
  \<open>fit_search\<close>, the length of the text in \<open>collapse_spaces\<close> and the splitting functions).

  Assumptions. An exchange with an upstream server may depend on everything sent before it; the
  contract \<open>upstream_law\<close> is that without an error there is a response, which repeats the question. The
  DNS library promises the response but does not compare the questions, so this is an assumption
  about the upstream servers; \<open>documented\<close> is the part the library promises, and what can stop the
  process is stated under that alone: a reply without a question section does
  (\<open>question_less_reply_panics\<close>). Requests have one question with an absolute name (\<open>question_ok\<close>) and a
  type whose high byte is neither that of a dot nor 0xFF, which no registered type has but
  which the program itself does not check: such a byte could make the keys of two questions equal.
  The map of stub zones is not nil and its zones have servers (\<open>zones_ok\<close>), which \<open>start\<close> is
  proved to ensure. The file system is a function, or, for the polling, a sequence of observations.
  A missing \<open>/etc/resolv.conf\<close> is identified with an empty one, as opening it creates it.

  Interleavings. The memory model is sequentially consistent. A step of a request is one critical
  section of the cache or one lookup in the hosts file, together with the work that follows it and
  touches nothing shared but counters, which are atomic. Asking upstream servers is such work: it is
  one step, and as every request has an upstream function of its own, which is arbitrary within its
  contract, no behaviour is lost by it. Polling steps are allowed whether or not polling is
  configured. \<open>phase_rank\<close> bounds the steps of a request by eleven.

  Not modelled. The serving of a socket and its goroutines, which are the DNS library's; \<open>Stop\<close>, which
  does nothing; logging, syslog, \<open>GOMAXPROCS\<close>, the delivery of signals, help texts; the parsing of
  arguments, JSON and HTTP, which are library code; what the reporters of graphite and stathat send;
  the failure of \<open>WriteMsg\<close>, which the program only logs. \<open>DumpCache\<close> and \<open>CacheSize\<close> read the map
  without its lock; their data race with a concurrent insertion is undefined in Go and has no step
  here. Counters are unbounded here and 64 bits wide in the program. \<open>ToLower\<close> maps non-ASCII letters
  too, which no theorem here covers; DNS names are ASCII.

  Further work: the life of the process when updates of \<open>/etc/resolv.conf\<close> fail midway.
\<close>

section \<open>From the command line to the replies\<close>

text \<open>
  The surroundings of a request in a running server: the configuration it was started with, the
  DNS library, upstream servers that keep their contract, and map orders that are orders.
\<close>

definition running :: "dns_lib \<Rightarrow> config \<Rightarrow> env \<Rightarrow> bool" where
  "running L C E \<longleftrightarrow>
     lib E = L \<and> conf E = C \<and> upstream_law E \<and> (\<forall>n. is_order (stub_order E n)) \<and>
     (\<forall>i. orders_ok (visit E i))"

lemma running_env_ok:
  assumes "accepted_config C" "reply_law L" "rcode_law L" "running L C E"
  shows "env_ok E"
proof -
  obtain zones where "cfg_stub C = Some zones" "zones_ok zones"
    using assms(1) by (auto simp: accepted_config_def)
  then have "stub_law E" using assms(4) by (auto simp: stub_law_def running_def zones_ok_def)
  with assms(2-4) show ?thesis by (simp add: env_ok_def env_laws_def running_def)
qed

text \<open>
  C2. A server that starts serves: if the command line and \<open>/etc/resolv.conf\<close> give a configuration
  that is accepted, then with that configuration any sequence of well-formed requests, under any
  behaviour of the upstream servers within their contract, is served without a panic, with one
  reply per request, in order, each with the request's identifier, name and type.
\<close>

theorem started_server_answers:
  assumes "start L cl rc = Inr C" "fqdn_law L" "reply_law L" "rcode_law L"
    and "\<forall>(E, a, req) \<in> set rs. running L C E \<and> request_ok req"
  shows "returns (\<lambda>s. list_all2 (\<lambda>(E, a, req) m. reply_matches req m) rs (written s))
           (serve_all rs (new_server C))"
proof -
  have "accepted_config C" by (rule start_accepted [OF assms(1,2)])
  then have "\<forall>(E, a, req) \<in> set rs. env_ok E \<and> request_ok req"
    using assms(3-5) running_env_ok by fast
  moreover have "cache_echo (rcache (new_server C))" by (simp add: new_server_def cache_echo_new)
  ultimately show ?thesis
    by (intro returns_mono [OF serve_all_ok]) (auto simp: new_server_def)
qed

theorem started_server_answers_witness:
  "returns (\<lambda>s. list_all2 (\<lambda>(E, a, req) m. reply_matches req m)
      [(sample_env sample_started silent, UDPAddr, sample_req)] (written s))
     (serve_all [(sample_env sample_started silent, UDPAddr, sample_req)] (new_server sample_started))"
  by (rule started_server_answers [OF sample_start])
    (auto simp: running_def orders_ok_def upstream_law_def silent_def)

text \<open>
  C1. The whole program under load: when the action of the program comes to serve, then in every
  interleaving of well-formed requests, with each other and with the polling of the hosts file, no
  request is answered twice, every reply carries the identifier, the name and the type of its own
  request, a request that is finished has its reply, and the cache, when it is enabled, holds
  fewer entries than its capacity. The upstream servers keep their contract, and are otherwise
  arbitrary.
\<close>

theorem served_requests_answered:
  assumes "action M L cl cause text = Inr (Served C cause', text')"
    and "fqdn_law L" "reply_law L" "rcode_law L"
    and "new_hostsfile (read_path M) (cfg_hostsfile C) (cfg_poll_interval C) = Inr (Some h)"
    and "\<And>i E a req. J i = (E, a, req) \<Longrightarrow> running L C E \<and> request_ok req"
    and "runs J ls (boot C h) w"
  shows "length (replies w i) \<le> 1 \<and> list_all (reply_matches (request_of J i)) (replies w i) \<and>
    (phases w i = Finished \<longrightarrow> length (replies w i) = 1) \<and>
    (0 < cfg_rcache C \<longrightarrow> int (cache_size (rcache (srv w))) < cfg_rcache C)"
proof -
  obtain rc where "start L cl rc = Inr C" using served_start [OF assms(1)] by blast
  then have "accepted_config C" by (rule start_accepted [OF _ assms(2)])
  then have "requests_ok J"
    using running_env_ok [OF _ assms(3,4)] assms(6) by (fastforce simp: requests_ok_def)
  from runs_answered [OF this new_hostsfile_ok [OF assms(5)] assms(7)] show ?thesis
    by (simp add: answered_def)
qed

definition started_requests :: requests where
  "started_requests i = (sample_env sample_started silent, UDPAddr, sample_req)"

definition no_hosts :: hostsfile where
  "no_hosts = \<lparr>hf_poll = 0, hf_hosts = [],
     hf_file = \<lparr>f_size = 0, f_path = [], f_mtime = - 62135596800 * 1000000000\<rparr>\<rparr>"

theorem served_requests_answered_witness:
  "answered started_requests sample_started 0
    (advance 0 (Fresh Idle) (counted_request False (new_server sample_started)) (boot sample_started no_hosts))"
  unfolding answered_def
proof (rule served_requests_answered [OF sample_action [where cause = Signal]])
  show "new_hostsfile (read_path sample_machine) (cfg_hostsfile sample_started)
      (cfg_poll_interval sample_started) = Inr (Some no_hosts)"
    by (simp add: new_hostsfile_def sample_started_def sample_cli_def no_hosts_def)
  show "runs started_requests [Request 0] (boot sample_started no_hosts)
      (advance 0 (Fresh Idle) (counted_request False (new_server sample_started)) (boot sample_started no_hosts))"
    using arrival [of "boot sample_started no_hosts" 0 started_requests "sample_env sample_started silent"
        UDPAddr sample_req sample_q 512 False]
    by (intro run_more [OF _ run_none]) (simp add: started_requests_def boot_def)
qed (auto simp: started_requests_def running_def orders_ok_def upstream_law_def silent_def)

text \<open>
  What a client should be told about a name that a hosts file lists, stated on the text of the file:
  the entries that spell the name, or else the wildcard entries whose domain the name extends by one
  label; of those the addresses of the type asked for, as records of the name as the client wrote it.
\<close>

definition entries_for :: "string \<Rightarrow> hostlist \<Rightarrow> hostlist" where
  "entries_for name hs =
     (let spelled = filter (\<lambda>h. h_domain h = name \<and> \<not> h_wildcard h) hs in
      if spelled \<noteq> [] then spelled
      else filter (\<lambda>h. h_wildcard h \<and> (\<exists>label. CHR ''.'' \<notin> set label \<and> name = label @ ''.'' @ h_domain h)) hs)"

definition entry_record :: "32 word \<Rightarrow> string \<Rightarrow> hostname \<Rightarrow> rr" where
  "entry_record hosts_ttl name h =
     \<lparr>rr_name = name, rr_type = (if h_ipv6 h then type_AAAA else type_A), rr_class = class_INET,
      rr_ttl = hosts_ttl, rr_data = (if h_ipv6 h then RD_AAAA (h_ip h) else RD_A (drop 12 (h_ip h)))\<rparr>"

definition file_answer :: "32 word \<Rightarrow> question \<Rightarrow> string \<Rightarrow> rr list" where
  "file_answer hosts_ttl q data =
     filter (\<lambda>r. q_type q \<in> {rr_type r, type_ANY})
       (map (entry_record hosts_ttl (q_name q))
          (entries_for (trim_suffix (to_lower (q_name q)) ''.'') (file_entries data)))"

lemma find_hosts_entries: "hostlist_find_hosts hs name = map h_ip (entries_for name hs)"
proof -
  have "exact_match name = (\<lambda>h. h_domain h = name \<and> \<not> h_wildcard h)" by (auto simp: exact_match_def)
  moreover have "wildcard_match name =
      (\<lambda>h. h_wildcard h \<and> (\<exists>label. CHR ''.'' \<notin> set label \<and> name = label @ ''.'' @ h_domain h))"
    by (rule ext) (rule wildcard_match_iff)
  ultimately show ?thesis by (simp add: hostlist_find_hosts_def entries_for_def Let_def)
qed

lemma address_record_entry:
  assumes "host_ok h"
  shows "address_record hosts_ttl q (h_ip h) =
    (if q_type q \<in> {rr_type (entry_record hosts_ttl (q_name q) h), type_ANY}
     then Some (entry_record hosts_ttl (q_name q) h) else None)"
proof -
  have "length (h_ip h) = 16" "h_ipv6 h = (to4 (h_ip h) = [])" using assms by (simp_all add: host_ok_def)
  moreover have "to4 (h_ip h) \<noteq> [] \<Longrightarrow> to4 (h_ip h) = drop 12 (h_ip h)" using calculation(1) by (auto simp: to4_def split: if_splits)
  ultimately show ?thesis
    by (auto simp: address_record_def entry_record_def to16_def)
qed

lemma collect_records_entries:
  "\<forall>h \<in> set hs. host_ok h \<Longrightarrow>
   collect_records hosts_ttl q (map h_ip hs) =
     filter (\<lambda>r. q_type q \<in> {rr_type r, type_ANY}) (map (entry_record hosts_ttl (q_name q)) hs)"
  by (induction hs) (simp_all add: address_record_entry)

lemma hosts_records_file:
  assumes "new_hostlist data = Inr (hf_hosts h)" "find_hosts E = hostsfile_find_hosts h"
    and "q_type q \<in> {type_A, type_AAAA, type_ANY}"
  shows "hosts_records E q (to_lower (q_name q)) = file_answer (cfg_hosts_ttl (conf E)) q data"
proof -
  have h: "hf_hosts h = file_entries data" by (rule new_hostlist_entries [OF assms(1)])
  have "\<forall>x \<in> set (entries_for n (hf_hosts h)). host_ok x" for n
    using new_hostlist_ok [OF assms(1)] by (auto simp: entries_for_def hosts_ok_def Let_def split: if_splits)
  then show ?thesis
    using assms(2,3)
    by (auto simp: hosts_records_def address_records_def hostsfile_find_hosts_def find_hosts_entries
        collect_records_entries file_answer_def h)
qed

text \<open>
  C3. The hosts file from its text to the reply: when the text of the file parses and lists records
  of the type asked for (\<open>file_answer\<close>), and the cache has no live answer, a client whose limit they
  fit gets exactly these records, in the order of the file, in an otherwise plain reply to its
  request; they all answer the question (name, class, TTL, type, address of the right length); no
  upstream server is asked; and that reply is offered to the cache under the question's key.
\<close>

theorem hosts_file_to_reply:
  assumes "new_hostlist data = Inr (hf_hosts h)" "find_hosts E = hostsfile_find_hosts h"
    and "m_question req = [q]" "reply_law (lib E)" "client_limits (lib E) a req = (bufsize, d)"
    and "live (clock E 0 0) (rcache s) (cache_key q d (is_tcp a)) = None"
    and "q_type q \<in> {type_A, type_AAAA, type_ANY}" "file_answer (cfg_hosts_ttl (conf E)) q data \<noteq> []"
    and "msg_len (lib E) ((base_reply (lib E) req)\<lparr>m_answer := file_answer (cfg_hosts_ttl (conf E)) q data\<rparr>)
           < (if is_tcp a then max_msg_size else uint bufsize)"
  shows "\<exists>s' m c. serve_dns E a req s = Inr s' \<and> sent s' = sent s \<and> written s' = written s @ [m] \<and>
    m = (base_reply (lib E) req)\<lparr>m_answer := file_answer (cfg_hosts_ttl (conf E)) q data\<rparr> \<and>
    list_all (answers_question (cfg_hosts_ttl (conf E)) q) (m_answer m) \<and>
    hit (clock E 0) q d (is_tcp a) (m_id req) (stale_enabled E) False (rcache s) = Inr (None, c) \<and>
    rcache s' = insert_message (clock E 1) (visit E 1) (cache_key q d (is_tcp a)) m c"
proof -
  let ?rs = "file_answer (cfg_hosts_ttl (conf E)) q data"
  have rs: "hosts_records E q (to_lower (q_name q)) = ?rs" by (rule hosts_records_file [OF assms(1,2,7)])
  have "answers_question (cfg_hosts_ttl (conf E)) q r" if "r \<in> set ?rs" for r
    using hosts.address_records_answer [of h sample_lib, OF _ _ that] new_hostlist_ok [OF assms(1)] assms(2,8) rs
    by (auto simp: hosts_records_def split: if_splits sum.split_asm)
  then have "list_all (answers_question (cfg_hosts_ttl (conf E)) q) ?rs" by (simp add: list_all_iff)
  with hosts_local [OF assms(3-6) rs assms(8,9)] show ?thesis by auto
qed

definition ab_req :: msg where
  "ab_req = new_msg\<lparr>m_id := 7, m_question := [sample_q\<lparr>q_name := ''ab.''\<rparr>]\<rparr>"

definition ab_record :: rr where
  "ab_record = \<lparr>rr_name = ''ab.'', rr_type = 1, rr_class = 1, rr_ttl = 10, rr_data = RD_A [127, 0, 0, 1]\<rparr>"

definition file_env :: env where
  "file_env = (sample_env sample_config silent)
     \<lparr>find_hosts := hostsfile_find_hosts (sample_hostsfile\<lparr>hf_hosts := sample_entries\<rparr>)\<rparr>"

lemma ab_answer: "file_answer 10 (sample_q\<lparr>q_name := ''ab.''\<rparr>) sample_hosts = [ab_record]"
proof -
  have "file_entries sample_hosts = sample_entries"
    using new_hostlist_entries [OF sample_hosts_list] by simp
  moreover have "to_lower ''ab.'' = ''ab.''" "trim_suffix ''ab.'' ''.'' = ''ab''" by code_simp+
  ultimately show ?thesis
    by (simp add: file_answer_def entries_for_def sample_entries_def entry_record_def ab_record_def
        v4_in_v6_prefix_def)
qed

theorem hosts_file_to_reply_witness:
  "\<exists>s' m c. serve_dns file_env UDPAddr ab_req (new_server sample_config) = Inr s' \<and>
    sent s' = sent (new_server sample_config) \<and> written s' = written (new_server sample_config) @ [m] \<and>
    m = (base_reply (lib file_env) ab_req)\<lparr>m_answer := [ab_record]\<rparr> \<and>
    list_all (answers_question 10 (sample_q\<lparr>q_name := ''ab.''\<rparr>)) (m_answer m) \<and>
    hit (clock file_env 0) (sample_q\<lparr>q_name := ''ab.''\<rparr>) False (is_tcp UDPAddr) (m_id ab_req) (stale_enabled file_env)
      False (rcache (new_server sample_config)) = Inr (None, c) \<and>
    rcache s' = insert_message (clock file_env 1) (visit file_env 1)
      (cache_key (sample_q\<lparr>q_name := ''ab.''\<rparr>) False (is_tcp UDPAddr)) m c"
proof -
  have ttl: "cfg_hosts_ttl (conf file_env) = 10" by (simp add: file_env_def sample_config_def)
  show ?thesis
    using hosts_file_to_reply [where E = file_env and data = sample_hosts and bufsize = 512 and d = False
        and h = "sample_hostsfile\<lparr>hf_hosts := sample_entries\<rparr>" and q = "sample_q\<lparr>q_name := ''ab.''\<rparr>"
        and a = UDPAddr and req = ab_req and s = "new_server sample_config", unfolded ttl ab_answer]
    by (simp add: sample_hosts_list file_env_def ab_req_def live_def new_server_def sample_msg_len new_msg_def)
qed

end
